theory Spec2Isabelle
  imports Complex_Main
begin

section \<open>The LLM relevance-judging service: data model and constants\<close>

text \<open>
  This theory embeds the class \<open>LLMService\<close> of the search battle arena: the judge
  client, the score extractor, the dataset scorer, the expected-utility metric and the
  orchestrator \<open>evaluateSearchResults\<close>.

  Modelling conventions.
  \<^item> A JavaScript string is the list of its UTF-16 code units, each a \<open>nat\<close>; \<open>length\<close>
    is then JavaScript's \<open>.length\<close>. ASCII literals are written \<open>lit ''...''\<close>.
  \<^item> JavaScript numbers are IEEE doubles. Grades, indices and counters only ever hold
    small integers and are modelled as \<open>int\<close> or \<open>nat\<close>. The metric and the durations
    are modelled as mathematical reals: rounding of the double arithmetic is not
    modelled, and \<open>EU_ALPHA\<close> is the rational 9/10.
\<close>

type_synonym jsstring = "nat list"

definition lit :: "string \<Rightarrow> jsstring" where
  "lit s = map of_char s"

definition MAX_PASSAGE_CHARS :: nat where
  "MAX_PASSAGE_CHARS = 4000"

definition MAX_TITLE_CHARS :: nat where
  "MAX_TITLE_CHARS = 200"

definition EVAL_DEPTH :: nat where
  "EVAL_DEPTH = 10"

definition EU_ALPHA :: real where
  "EU_ALPHA = 9 / 10"

section \<open>Strings and regular expressions of the runtime\<close>

text \<open>
  \<open>\s\<close> and \<open>String.prototype.trim\<close> use the same set: ECMAScript WhiteSpace
  (TAB, VT, FF, SP, NBSP, ZWNBSP and the Unicode space separators) and LineTerminator
  (LF, CR, LS, PS).
\<close>

definition isWhiteSpace :: "nat \<Rightarrow> bool" where
  "isWhiteSpace c \<longleftrightarrow>
     c = 9 \<or> c = 10 \<or> c = 11 \<or> c = 12 \<or> c = 13 \<or> c = 32 \<or> c = 160 \<or> c = 5760 \<or>
     (8192 \<le> c \<and> c \<le> 8202) \<or> c = 8232 \<or> c = 8233 \<or> c = 8239 \<or> c = 8287 \<or>
     c = 12288 \<or> c = 65279"

definition isLineTerminator :: "nat \<Rightarrow> bool" where
  "isLineTerminator c \<longleftrightarrow> c = 10 \<or> c = 13 \<or> c = 8232 \<or> c = 8233"

text \<open>The word characters of \<open>\b\<close> (no \<open>u\<close> flag): \<open>[A-Za-z0-9_]\<close>.\<close>

definition isWordChar :: "nat \<Rightarrow> bool" where
  "isWordChar c \<longleftrightarrow>
     (48 \<le> c \<and> c \<le> 57) \<or> (65 \<le> c \<and> c \<le> 90) \<or> c = 95 \<or> (97 \<le> c \<and> c \<le> 122)"

definition isDigit :: "nat \<Rightarrow> bool" where
  "isDigit c \<longleftrightarrow> 48 \<le> c \<and> c \<le> 57"

text \<open>
  Case folding of the \<open>i\<close> flag. Every pattern character below is ASCII, and the
  runtime's Canonicalize never maps a code unit above 127 to one below 128, so folding the
  ASCII letters is all that can make an input unit equal to a pattern character.
\<close>

definition canonicalize :: "nat \<Rightarrow> nat" where
  "canonicalize c = (if 97 \<le> c \<and> c \<le> 122 then c - 32 else c)"

text \<open>
  The regular expressions of the source are sequences of these atoms: a literal
  character, a greedy \<open>\s*\<close>, the capture group \<open>([0-3])\<close>, the assertion \<open>\b\<close>, and
  the assertion \<open>^\<close> under the \<open>m\<close> flag.
\<close>

datatype atom = Chr nat | WsStar | Grade03 | WordB | LineStart

fun wordOpt :: "nat option \<Rightarrow> bool" where
  "wordOpt None = False"
| "wordOpt (Some c) = isWordChar c"

fun nextUnit :: "jsstring \<Rightarrow> nat option" where
  "nextUnit [] = None"
| "nextUnit (x # xs) = Some x"

text \<open>
  \<open>matchHere pat prev s cap\<close> matches \<open>pat\<close> at the current position by backtracking:
  \<open>prev\<close> is the code unit before the position (\<open>None\<close> at the start of the input),
  \<open>s\<close> the input from the position on, \<open>cap\<close> the text of the capture group so far.
  A greedy \<open>\s*\<close> first tries to take one more white-space unit and falls back to taking
  none when the rest of the pattern fails.
\<close>

fun matchHere :: "atom list \<Rightarrow> nat option \<Rightarrow> jsstring \<Rightarrow> jsstring \<Rightarrow> jsstring option" where
  "matchHere [] prev s cap = Some cap"
| "matchHere (Chr p # as) prev [] cap = None"
| "matchHere (Chr p # as) prev (x # xs) cap =
     (if canonicalize x = canonicalize p then matchHere as (Some x) xs cap else None)"
| "matchHere (WsStar # as) prev [] cap = matchHere as prev [] cap"
| "matchHere (WsStar # as) prev (x # xs) cap =
     (if isWhiteSpace x then
        (case matchHere (WsStar # as) (Some x) xs cap of
           Some r \<Rightarrow> Some r
         | None \<Rightarrow> matchHere as prev (x # xs) cap)
      else matchHere as prev (x # xs) cap)"
| "matchHere (Grade03 # as) prev [] cap = None"
| "matchHere (Grade03 # as) prev (x # xs) cap =
     (if 48 \<le> x \<and> x \<le> 51 then matchHere as (Some x) xs [x] else None)"
| "matchHere (WordB # as) prev s cap =
     (if wordOpt prev \<noteq> wordOpt (nextUnit s) then matchHere as prev s cap else None)"
| "matchHere (LineStart # as) prev s cap =
     (case prev of
        None \<Rightarrow> matchHere as prev s cap
      | Some c \<Rightarrow> if isLineTerminator c then matchHere as prev s cap else None)"

text \<open>
  \<open>RegExp.prototype.exec\<close> without the \<open>g\<close> flag: the leftmost start position at which
  the pattern matches, tried from index 0 up to the end of the input.
\<close>

fun execFrom :: "atom list \<Rightarrow> nat option \<Rightarrow> jsstring \<Rightarrow> jsstring option" where
  "execFrom pat prev [] = matchHere pat prev [] []"
| "execFrom pat prev (x # xs) =
     (case matchHere pat prev (x # xs) [] of
        Some cap \<Rightarrow> Some cap
      | None \<Rightarrow> execFrom pat (Some x) xs)"

text \<open>\<open>/##\s*final\s*score\s*:\s*([0-3])\b/i\<close>\<close>

definition scoreRegex :: "atom list" where
  "scoreRegex =
     map Chr (lit ''##'') @ [WsStar] @ map Chr (lit ''final'') @ [WsStar] @
     map Chr (lit ''score'') @ [WsStar] @ map Chr (lit '':'') @ [WsStar] @ [Grade03, WordB]"

text \<open>\<open>/^##/m\<close>\<close>

definition lineHashesRegex :: "atom list" where
  "lineHashesRegex = [LineStart] @ map Chr (lit ''##'')"

text \<open>
  \<open>parseInt(s, 10)\<close>: leading white space, an optional sign, then the longest run of
  decimal digits; \<open>None\<close> is NaN.
\<close>

definition parseInt10 :: "jsstring \<Rightarrow> int option" where
  "parseInt10 s =
     (let t = dropWhile isWhiteSpace s;
          sign = (case t of [] \<Rightarrow> 1 | c # r \<Rightarrow> if c = 45 then - 1 else (1::int));
          u = (case t of [] \<Rightarrow> [] | c # r \<Rightarrow> if c = 45 \<or> c = 43 then r else t);
          z = takeWhile isDigit u
      in if z = [] then None
         else Some (sign * foldl (\<lambda>a d. 10 * a + (int d - 48)) 0 z))"

definition startsWith :: "jsstring \<Rightarrow> jsstring \<Rightarrow> bool" where
  "startsWith s p \<longleftrightarrow> take (length p) s = p"

definition trim :: "jsstring \<Rightarrow> jsstring" where
  "trim s = rev (dropWhile isWhiteSpace (rev (dropWhile isWhiteSpace s)))"

text \<open>\<open>parts.join(sep)\<close>\<close>

fun joinWith :: "jsstring \<Rightarrow> jsstring list \<Rightarrow> jsstring" where
  "joinWith sep [] = []"
| "joinWith sep [p] = p"
| "joinWith sep (p # q # ps) = p @ sep @ joinWith sep (q # ps)"

text \<open>\<open>a || b\<close> for a string that may be undefined: the empty string is falsy too.\<close>

fun orElse :: "jsstring option \<Rightarrow> jsstring \<Rightarrow> jsstring" where
  "orElse None d = d"
| "orElse (Some s) d = (if s = [] then d else s)"

section \<open>Score extractor\<close>

definition extractScore :: "jsstring \<Rightarrow> int" where
  "extractScore rawText =
     (case execFrom scoreRegex None rawText of
        None \<Rightarrow> - 1
      | Some cap \<Rightarrow>
          (case parseInt10 cap of
             None \<Rightarrow> - 1
           | Some n \<Rightarrow> if n < 0 \<or> n > 3 then - 1 else n))"

section \<open>Metrics engine\<close>

text \<open>\<open>gain(rel) = Math.pow(2, rel) - 1\<close>, for an integer relevance.\<close>

definition gain :: "int \<Rightarrow> real" where
  "gain rel = 2 powi rel - 1"

text \<open>
  The loop of \<open>expectedUtilityOutOf10\<close>: \<open>for (let i = 0; i < L; i++)\<close> with the
  accumulators \<open>num\<close> and \<open>denomP\<close>. \<open>scores[i] ?? 0\<close> reads 0 beyond the end of the array.
\<close>

function euLoop :: "int list \<Rightarrow> real \<Rightarrow> nat \<Rightarrow> nat \<Rightarrow> real \<Rightarrow> real \<Rightarrow> real \<times> real" where
  "euLoop scores alpha L i num denomP =
     (if i < L then
        (let p = alpha ^ i;
             rel = (if i < length scores then scores ! i else 0)
         in euLoop scores alpha L (i + 1) (num + p * gain rel) (denomP + p))
      else (num, denomP))"
  by pat_completeness auto
termination
  by (relation "measure (\<lambda>(scores, alpha, L, i, num, denomP). L - i)") auto

declare euLoop.simps [simp del]

definition expectedUtilityOutOf10 :: "int list \<Rightarrow> real \<Rightarrow> nat \<Rightarrow> real" where
  "expectedUtilityOutOf10 scores alpha L =
     (case euLoop scores alpha L 0 0 0 of
        (num, denomP) \<Rightarrow>
          (let denom = denomP * gain 3
           in if denom > 0 then (num / denom) * 10 else 0))"

text \<open>\<open>computeMetrics\<close> ignores the pooled labels: the nDCG fields are commented out.\<close>

definition computeMetrics :: "int list \<Rightarrow> int list \<Rightarrow> real" where
  "computeMetrics scores pooled = expectedUtilityOutOf10 scores EU_ALPHA EVAL_DEPTH"

section \<open>The service and its runtime\<close>

text \<open>
  A \<open>SearchResult\<close> as this class reads it: \<open>title\<close>, \<open>description\<close> and \<open>url\<close>, each
  possibly undefined (the code guards every read with \<open>||\<close> or a truthiness test). The
  fields \<open>id\<close> and \<open>score\<close> of the provider are never read here.
\<close>

record SearchResult =
  title :: "jsstring option"
  description :: "jsstring option"
  url :: "jsstring option"

record LLMService =
  modelName :: jsstring
  hasApiKey :: bool

text \<open>
  The constructor reads \<open>process.env.AI_GATEWAY_API_KEY\<close>, copies a non-empty key to
  \<open>GOOGLE_GENERATIVE_AI_API_KEY\<close>, and sets \<open>hasApiKey = !!key\<close>.
\<close>

definition newLLMService :: "(string \<rightharpoonup> jsstring) \<Rightarrow> LLMService \<times> (string \<rightharpoonup> jsstring)" where
  "newLLMService env =
     (let key = orElse (env ''AI_GATEWAY_API_KEY'') [];
          env' = (if orElse (env ''AI_GATEWAY_API_KEY'') [] \<noteq> []
                  then env(''GOOGLE_GENERATIVE_AI_API_KEY'' \<mapsto> key) else env)
      in (\<lparr>modelName = lit ''google/gemini-2.5-flash'', hasApiKey = (key \<noteq> [])\<rparr>, env'))"

text \<open>
  The call \<open>generateText({model, prompt, temperature})\<close> either throws (\<open>Threw\<close> carries
  \<open>String(err)\<close>) or returns a result whose \<open>text\<close> may be missing.
\<close>

record gen_args =
  model :: jsstring
  prompt :: jsstring
  temperature :: real

datatype gen_outcome = Threw jsstring | Returned "jsstring option"

text \<open>
  What the class takes from outside: the model call and the clock, both reading an
  external world \<open>'w\<close> that only the model call changes, and the number formatting of
  template literals and of \<open>toFixed\<close>.
\<close>

record 'w runtime =
  generateText :: "gen_args \<Rightarrow> 'w \<Rightarrow> gen_outcome \<times> 'w"
  performanceNow :: "'w \<Rightarrow> real"
  numberToString :: "int \<Rightarrow> jsstring"
  toFixed :: "real \<Rightarrow> nat \<Rightarrow> jsstring"

text \<open>
  The state threaded through the service: the external world, and \<open>judgeLog\<close>, a ghost
  field that records each call of \<open>generateText\<close> with its outcome, oldest first.
\<close>

record 'w state =
  world :: 'w
  judgeLog :: "(gen_args \<times> gen_outcome) list"

definition callGenerateText :: "'w runtime \<Rightarrow> gen_args \<Rightarrow> 'w state \<Rightarrow> gen_outcome \<times> 'w state" where
  "callGenerateText rt args st =
     (case generateText rt args (world st) of
        (out, w') \<Rightarrow> (out, \<lparr>world = w', judgeLog = judgeLog st @ [(args, out)]\<rparr>))"

section \<open>Passage formatting and the judge prompt\<close>

text \<open>\<open>truncate\<close> of the source; the suffix avoids the name the record package uses.\<close>

definition truncate_str :: "jsstring \<Rightarrow> nat \<Rightarrow> jsstring" where
  "truncate_str s maxLen = (if s = [] then [] else if length s \<le> maxLen then s else take maxLen s)"

definition formatPassage :: "SearchResult \<Rightarrow> jsstring" where
  "formatPassage r =
     (let title_s = truncate_str (orElse (title r) (lit ''Untitled'')) MAX_TITLE_CHARS;
          desc = truncate_str (orElse (description r) []) MAX_PASSAGE_CHARS;
          url_s = (if orElse (url r) [] \<noteq> [] then lit ''\<newline>URL: '' @ orElse (url r) [] else [])
      in trim (lit ''Title: '' @ title_s @ lit ''\<newline> Description: '' @ desc @
               lit ''\<newline> URL: '' @ url_s))"

definition umbrelaPrompt :: "jsstring \<Rightarrow> jsstring \<Rightarrow> jsstring" where
  "umbrelaPrompt query passage =
     lit ''Given a query and a passage, you must provide a score on an integer scale of 0 to 3 with the following meanings:\<newline>'' @
     lit ''0 = represent that the passage has nothing to do with the query, \<newline>'' @
     lit ''1 = represents that the passage seems related to the query but does not answer it, \<newline>'' @
     lit ''2 = represents that the passage has some answer for the query, but the answer may be a bit unclear, or hidden amongst extraneous information and \<newline>'' @
     lit ''3 = represents that the passage is dedicated to the query and contains the exact answer.\<newline>\<newline>'' @
     lit ''Important Instruction: Assign category 1 if the passage is somewhat related to the topic but not completely, category 2 if passage presents something very important related to the entire topic but also has some extra information and category 3 if the passage only and entirely refers to the topic. If none of the above satisfies give it category 0.\<newline>\<newline>'' @
     lit ''Query: '' @ query @ lit ''\<newline>'' @
     lit ''Passage: '' @ passage @ lit ''\<newline>\<newline>'' @
     lit ''Split this problem into steps:\<newline>'' @
     lit ''Consider the underlying intent of the search.\<newline>'' @
     lit ''Measure how well the content matches a likely intent of the query (M).\<newline>'' @
     lit ''Measure how trustworthy the passage is (T).\<newline>'' @
     lit ''Consider the aspects above and the relative importance of each, and decide on a final score (O). Final score must be an integer value only.\<newline>'' @
     lit ''Do not provide any code in result. Provide each score in the format of: ##final score: score without providing any reasoning.\<newline>''"

section \<open>Judge client\<close>

text \<open>
  The result of \<open>scoreOne\<close>: its fields \<open>score\<close>, \<open>raw\<close> and \<open>durationMs\<close> are named
  \<open>judgedScore\<close>, \<open>raw\<close> and \<open>judgedMs\<close> here, since \<open>score\<close> and \<open>durationMs\<close> are
  also fields of other records below.
\<close>

record JudgedOne =
  judgedScore :: int
  raw :: jsstring
  judgedMs :: real

definition scoreOne :: "'w runtime \<Rightarrow> LLMService \<Rightarrow> jsstring \<Rightarrow> jsstring \<Rightarrow> 'w state \<Rightarrow> JudgedOne \<times> 'w state" where
  "scoreOne rt this query passage st =
     (let p = umbrelaPrompt query passage;
          start = performanceNow rt (world st)
      in case callGenerateText rt \<lparr>model = modelName this, prompt = p, temperature = 0\<rparr> st of
           (Threw err, st') \<Rightarrow>
             (let endErr = performanceNow rt (world st')
              in (\<lparr>judgedScore = 0, raw = lit ''ERR:'' @ err, judgedMs = endErr - start\<rparr>, st'))
         | (Returned t, st') \<Rightarrow>
             (let txt = orElse t [];
                  end_t = performanceNow rt (world st');
                  score0 = extractScore txt;
                  score1 = (if score0 = - 1 then 0 else score0)
              in (\<lparr>judgedScore = score1, raw = txt, judgedMs = end_t - start\<rparr>, st')))"

section \<open>Dataset scorer\<close>

record PerDoc =
  index :: nat
  score :: int

text \<open>
  \<open>counts\<close> is the object \<open>{0: 0, 1: 0, 2: 0, 3: 0}\<close>, kept as its key-value pairs in
  key order; \<open>countOf\<close> is \<open>counts[k] || 0\<close>.
\<close>

record DatasetScore =
  total :: int
  counts :: "(int \<times> nat) list"
  errors :: nat
  durationMs :: real
  perDoc :: "PerDoc list"

definition countOf :: "(int \<times> nat) list \<Rightarrow> int \<Rightarrow> nat" where
  "countOf cs k = (case map_of cs k of None \<Rightarrow> 0 | Some n \<Rightarrow> n)"

fun setCount :: "(int \<times> nat) list \<Rightarrow> int \<Rightarrow> nat \<Rightarrow> (int \<times> nat) list" where
  "setCount [] k v = [(k, v)]"
| "setCount ((k', v') # cs) k v = (if k' = k then (k, v) # cs else (k', v') # setCount cs k v)"

text \<open>
  The body of the \<open>for\<close> loop of \<open>scoreDataset\<close> is one step of \<open>scoreLoop\<close>: the item
  \<open>capped[i]\<close>, the index \<open>i\<close>, and the accumulators \<open>total\<close>, \<open>counts\<close>, \<open>errors\<close>,
  \<open>durationMs\<close> and \<open>perDoc\<close> held in one record.
\<close>

fun scoreLoop :: "'w runtime \<Rightarrow> LLMService \<Rightarrow> jsstring \<Rightarrow> SearchResult list \<Rightarrow> nat \<Rightarrow>
    DatasetScore \<Rightarrow> 'w state \<Rightarrow> DatasetScore \<times> 'w state" where
  "scoreLoop rt this query [] i acc st = (acc, st)"
| "scoreLoop rt this query (r # rest) i acc st =
     (let passage = truncate_str (formatPassage r) MAX_PASSAGE_CHARS
      in case scoreOne rt this query passage st of
           (one, st') \<Rightarrow>
             (let durationMs' = durationMs acc + judgedMs one;
                  errors' =
                    (if startsWith (raw one) (lit ''ERR:'') \<or>
                        execFrom lineHashesRegex None (raw one) = None
                     then (if startsWith (raw one) (lit ''ERR:'') then errors acc + 1
                           else errors acc)
                     else errors acc);
                  s = (if judgedScore one < 0 \<or> judgedScore one > 3 then 0 else judgedScore one);
                  counts' = setCount (counts acc) s (countOf (counts acc) s + 1);
                  total' = total acc + s;
                  perDoc' = perDoc acc @ [\<lparr>index = i, score = s\<rparr>]
              in scoreLoop rt this query rest (i + 1)
                   \<lparr>total = total', counts = counts', errors = errors',
                    durationMs = durationMs', perDoc = perDoc'\<rparr> st'))"

definition scoreDataset :: "'w runtime \<Rightarrow> LLMService \<Rightarrow> jsstring \<Rightarrow> SearchResult list \<Rightarrow> 'w state \<Rightarrow>
    DatasetScore \<times> 'w state" where
  "scoreDataset rt this query results st =
     (let capped = take EVAL_DEPTH results
      in scoreLoop rt this query capped 0
           \<lparr>total = 0, counts = [(0, 0), (1, 0), (2, 0), (3, 0)], errors = 0,
            durationMs = 0, perDoc = []\<rparr> st)"

section \<open>Evaluation orchestrator\<close>

text \<open>
  \<open>EvaluationResult\<close>: the field \<open>score\<close> of the source is \<open>evalScore\<close> here. The
  optional \<open>metrics\<close> field is never set by this class.
\<close>

record EvaluationResult =
  evalScore :: real
  feedback :: jsstring

record EvaluationReport =
  db1 :: EvaluationResult
  db2 :: EvaluationResult
  llmDuration :: real

definition fallback :: EvaluationReport where
  "fallback =
     \<lparr>db1 = \<lparr>evalScore = - 1, feedback = []\<rparr>,
      db2 = \<lparr>evalScore = - 1, feedback = []\<rparr>,
      llmDuration = 0\<rparr>"

text \<open>
  \<open>makeFeedback\<close>; the dash after \<open>Breakdown\<close> is the code unit 8212 and the star is 9733.
  \<open>metrics\<close> is the \<open>nEU\<close> of the optional argument.
\<close>

definition makeFeedback :: "'w runtime \<Rightarrow> DatasetScore \<Rightarrow> int \<Rightarrow> real option \<Rightarrow> jsstring" where
  "makeFeedback rt agg dbIndex metrics =
     (let n = sum_list (map snd (counts agg));
          num = numberToString rt;
          parts0 =
            [lit ''DB '' @ num dbIndex @ lit '': '' @ num (int n) @ lit '' docs scored (top '' @
               num (int EVAL_DEPTH) @ lit ''). Total label sum: '' @ num (total agg) @ lit ''.'',
             lit ''Breakdown '' @ [8212] @
               lit '' 3'' @ [9733] @ lit '': '' @ num (int (countOf (counts agg) 3)) @
               lit '', 2'' @ [9733] @ lit '': '' @ num (int (countOf (counts agg) 2)) @
               lit '', 1'' @ [9733] @ lit '': '' @ num (int (countOf (counts agg) 1)) @
               lit '', 0'' @ [9733] @ lit '': '' @ num (int (countOf (counts agg) 0)) @ lit ''.''];
          parts1 =
            (case metrics of
               None \<Rightarrow> parts0
             | Some nEU \<Rightarrow> parts0 @ [lit ''Score: '' @ toFixed rt nEU 3 @ lit ''.'']);
          parts2 =
            (if errors agg > 0
             then parts1 @ [lit ''Note: '' @ num (int (errors agg)) @
                    lit '' chunk(s) failed to parse or errored and were counted as 0.'']
             else parts1)
      in joinWith (lit '' '') parts2)"

definition evaluateSearchResults :: "'w runtime \<Rightarrow> LLMService \<Rightarrow> jsstring \<Rightarrow> SearchResult list \<Rightarrow>
    SearchResult list \<Rightarrow> 'w state \<Rightarrow> EvaluationReport \<times> 'w state" where
  "evaluateSearchResults rt this query results1 results2 st =
     (if \<not> hasApiKey this then (fallback, st)
      else
        (let top1 = take EVAL_DEPTH results1;
             top2 = take EVAL_DEPTH results2
         in case scoreDataset rt this query top1 st of
              (d1, st1) \<Rightarrow>
                (case scoreDataset rt this query top2 st1 of
                   (d2, st2) \<Rightarrow>
                     (let duration = durationMs d1 + durationMs d2;
                          s1 = take EVAL_DEPTH (map score (sort_key index (perDoc d1)));
                          s2 = take EVAL_DEPTH (map score (sort_key index (perDoc d2)));
                          pooled = s1 @ s2;
                          m1 = computeMetrics s1 pooled;
                          m2 = computeMetrics s2 pooled
                      in (\<lparr>db1 = \<lparr>evalScore = m1, feedback = makeFeedback rt d1 1 (Some m1)\<rparr>,
                           db2 = \<lparr>evalScore = m2, feedback = makeFeedback rt d2 2 (Some m2)\<rparr>,
                           llmDuration = duration\<rparr>, st2)))))"

section \<open>Vocabulary of the properties\<close>

text \<open>
  The marker of the judge's answer, as the specification words it: \<open>##final score: g\<close>,
  tolerant of white space between its parts and of the case of its letters, with a grade
  \<open>g\<close> from 0 to 3 that no word character follows. \<open>markerHere s g\<close> says that \<open>s\<close>
  begins with such a marker; \<open>markerAt rawText k g\<close> that one begins at index \<open>k\<close>.
\<close>

definition sameIgnoringCase :: "jsstring \<Rightarrow> jsstring \<Rightarrow> bool" where
  "sameIgnoringCase u v \<longleftrightarrow> map canonicalize u = map canonicalize v"

definition markerHere :: "jsstring \<Rightarrow> nat \<Rightarrow> bool" where
  "markerHere s g \<longleftrightarrow>
     (\<exists>w1 F w2 S w3 w4 rest.
        s = lit ''##'' @ w1 @ F @ w2 @ S @ w3 @ lit '':'' @ w4 @ [48 + g] @ rest \<and>
        list_all isWhiteSpace (w1 @ w2 @ w3 @ w4) \<and>
        sameIgnoringCase F (lit ''final'') \<and> sameIgnoringCase S (lit ''score'') \<and>
        g \<le> 3 \<and> (rest = [] \<or> \<not> isWordChar (hd rest)))"

definition markerAt :: "jsstring \<Rightarrow> nat \<Rightarrow> nat \<Rightarrow> bool" where
  "markerAt rawText k g \<longleftrightarrow> k \<le> length rawText \<and> markerHere (drop k rawText) g"

text \<open>
  What \<open>scoreOne\<close> makes of one outcome of the model call: the raw text it reports and
  the grade that \<open>scoreDataset\<close> records for it.
\<close>

definition rawOf :: "gen_outcome \<Rightarrow> jsstring" where
  "rawOf out = (case out of Threw err \<Rightarrow> lit ''ERR:'' @ err | Returned t \<Rightarrow> orElse t [])"

definition gradeOf :: "gen_outcome \<Rightarrow> int" where
  "gradeOf out =
     (case out of
        Threw err \<Rightarrow> 0
      | Returned t \<Rightarrow> (if extractScore (orElse t []) = - 1 then 0 else extractScore (orElse t [])))"

text \<open>The arguments of the model call that \<open>scoreDataset\<close> makes for one result.\<close>

definition judgeArgs :: "LLMService \<Rightarrow> jsstring \<Rightarrow> SearchResult \<Rightarrow> gen_args" where
  "judgeArgs this query r =
     \<lparr>model = modelName this,
      prompt = umbrelaPrompt query (truncate_str (formatPassage r) MAX_PASSAGE_CHARS),
      temperature = 0\<rparr>"

text \<open>
  The two outcomes that \<open>scoreDataset\<close> tallies as errors: a model call that threw, and
  a model call that returned a text which itself begins with \<open>ERR:\<close>.
\<close>

fun threw :: "gen_outcome \<Rightarrow> bool" where
  "threw (Threw err) = True"
| "threw (Returned t) = False"

fun returnedSentinel :: "gen_outcome \<Rightarrow> bool" where
  "returnedSentinel (Threw err) = False"
| "returnedSentinel (Returned t) = startsWith (orElse t []) (lit ''ERR:'')"

text \<open>
  A scripted judge for concrete runs: the world is the number of model calls made so
  far, the call number \<open>w\<close> gets the outcome \<open>outs ! w\<close> of the script (a result without
  text once the script is used up), and the clock reads the call count.
\<close>

definition scriptedRuntime :: "gen_outcome list \<Rightarrow> nat runtime" where
  "scriptedRuntime outs =
     \<lparr>generateText = (\<lambda>args w. (if w < length outs then outs ! w else Returned None, Suc w)),
      performanceNow = (\<lambda>w. real w),
      numberToString = (\<lambda>n. []),
      toFixed = (\<lambda>x digits. [])\<rparr>"

definition keyedService :: LLMService where
  "keyedService = \<lparr>modelName = lit ''google/gemini-2.5-flash'', hasApiKey = True\<rparr>"

definition startState :: "nat state" where
  "startState = \<lparr>world = 0, judgeLog = []\<rparr>"

definition doc :: "string \<Rightarrow> SearchResult" where
  "doc t = \<lparr>title = Some (lit t), description = Some (lit ''text''), url = Some (lit ''u'')\<rparr>"

text \<open>
  The part of a formatted passage that precedes the description: the title line and the
  label of the description.
\<close>

definition passageHeader :: "SearchResult \<Rightarrow> jsstring" where
  "passageHeader r =
     lit ''Title: '' @ truncate_str (orElse (title r) (lit ''Untitled'')) MAX_TITLE_CHARS @
     lit ''\<newline> Description: ''"


definition unparsableScript :: "gen_outcome list" where
  "unparsableScript = [Returned (Some (lit ''I cannot decide'')), Threw (lit ''boom'')]"



definition longDoc :: SearchResult where
  "longDoc = \<lparr>title = Some (lit ''T''), description = Some (replicate 4000 100),
              url = Some (lit ''https://example.com/a'')\<rparr>"

section \<open>Auxiliary definitions: the score pattern in stages\<close>

text \<open>
  The tails of \<open>scoreRegex\<close> after \<open>##\<close>, after \<open>final\<close>, after \<open>score\<close> and after the
  colon, used to analyse the matcher stage by stage.
\<close>

definition tailGrade :: "atom list" where
  "tailGrade = [WsStar, Grade03, WordB]"

definition tailColon :: "atom list" where
  "tailColon = WsStar # map Chr (lit '':'') @ tailGrade"

definition tailScore :: "atom list" where
  "tailScore = WsStar # map Chr (lit ''score'') @ tailColon"

definition tailFinal :: "atom list" where
  "tailFinal = WsStar # map Chr (lit ''final'') @ tailScore"

section \<open>Properties of the metrics engine\<close>

lemma euLoop_sums:
  "euLoop scores alpha L i num denomP =
     (num + (\<Sum>k = i..<L. alpha ^ k * gain (if k < length scores then scores ! k else 0)),
      denomP + (\<Sum>k = i..<L. alpha ^ k))"
proof (induction scores alpha L i num denomP rule: euLoop.induct)
  case (1 scores alpha L i num denomP)
  show ?case
  proof (cases "i < L")
    case True
    then show ?thesis
      using "1.IH" [OF True refl refl]
      by (subst euLoop.simps) (simp add: sum.atLeast_Suc_lessThan Let_def algebra_simps)
  next
    case False
    then show ?thesis by (subst euLoop.simps) simp
  qed
qed

lemma gain_values: "gain 0 = 0" "gain 1 = 1" "gain 2 = 3" "gain 3 = 7"
  by (simp_all add: gain_def)

lemma gain_mono: "a \<le> b \<Longrightarrow> gain a \<le> gain b"
  by (simp add: gain_def power_int_increasing)

lemma gain_grade:
  assumes "r \<in> {0, 1, 2, 3}"
  shows "0 \<le> gain r" and "gain r \<le> 7" and "gain r = 0 \<longleftrightarrow> r = 0" and "gain r = 7 \<longleftrightarrow> r = 3"
  using assms by (auto simp: gain_values)

lemma geo_pos: "0 < (\<Sum>k = 0..<10. (9/10::real) ^ k)"
  by (rule sum_pos) auto

lemma eu_closed:
  "expectedUtilityOutOf10 scores EU_ALPHA EVAL_DEPTH =
     (\<Sum>k = 0..<10. (9/10) ^ k * gain (if k < length scores then scores ! k else 0))
       / ((\<Sum>k = 0..<10. (9/10) ^ k) * 7) * 10"
  using geo_pos
  by (simp add: expectedUtilityOutOf10_def euLoop_sums EU_ALPHA_def EVAL_DEPTH_def gain_values)

lemma rel_grade:
  "set scores \<subseteq> {0, 1, 2, 3} \<Longrightarrow> (if k < length scores then scores ! k else 0) \<in> {0, 1, 2, 3::int}"
  by (auto dest: nth_mem)

lemma eu_nonneg:
  assumes "set scores \<subseteq> {0, 1, 2, 3}"
  shows "0 \<le> expectedUtilityOutOf10 scores EU_ALPHA EVAL_DEPTH"
proof -
  have "0 \<le> (\<Sum>k = 0..<10. (9/10::real) ^ k * gain (if k < length scores then scores ! k else 0))"
    by (rule sum_nonneg) (simp add: gain_grade(1) [OF rel_grade [OF assms]])
  then show ?thesis
    using geo_pos by (simp add: eu_closed)
qed

lemma eu_le_10:
  assumes "set scores \<subseteq> {0, 1, 2, 3}"
  shows "expectedUtilityOutOf10 scores EU_ALPHA EVAL_DEPTH \<le> 10"
proof -
  have "(\<Sum>k = 0..<10. (9/10::real) ^ k * gain (if k < length scores then scores ! k else 0))
          \<le> (\<Sum>k = 0..<10. (9/10::real) ^ k * 7)"
    by (rule sum_mono) (simp add: gain_grade(2) [OF rel_grade [OF assms]])
  also have "\<dots> = (\<Sum>k = 0..<10. (9/10::real) ^ k) * 7"
    by (simp add: sum_distrib_right)
  finally show ?thesis
    using geo_pos by (simp add: eu_closed pos_divide_le_eq)
qed

lemma eu_eq_0_iff:
  assumes "set scores \<subseteq> {0, 1, 2, 3}"
  shows "expectedUtilityOutOf10 scores EU_ALPHA EVAL_DEPTH = 0
           \<longleftrightarrow> (\<forall>k < 10. k < length scores \<longrightarrow> scores ! k = 0)"
proof -
  let ?f = "\<lambda>k. (9/10::real) ^ k * gain (if k < length scores then scores ! k else 0)"
  have nn: "\<And>k. 0 \<le> ?f k"
    by (simp add: gain_grade(1) [OF rel_grade [OF assms]])
  have "expectedUtilityOutOf10 scores EU_ALPHA EVAL_DEPTH = 0 \<longleftrightarrow> sum ?f {0..<10} = 0"
    using geo_pos by (simp add: eu_closed)
  also have "\<dots> \<longleftrightarrow> (\<forall>k \<in> {0..<10}. ?f k = 0)"
    by (rule sum_nonneg_eq_0_iff) (simp_all add: nn)
  also have "\<dots> \<longleftrightarrow> (\<forall>k < 10. k < length scores \<longrightarrow> scores ! k = 0)"
    using gain_grade(3) [OF rel_grade [OF assms]] by (auto simp: gain_values)
  finally show ?thesis .
qed

lemma eu_eq_10_iff:
  assumes "set scores \<subseteq> {0, 1, 2, 3}"
  shows "expectedUtilityOutOf10 scores EU_ALPHA EVAL_DEPTH = 10
           \<longleftrightarrow> (10 \<le> length scores \<and> (\<forall>k < 10. scores ! k = 3))"
proof -
  let ?r = "\<lambda>k. if k < length scores then scores ! k else 0"
  let ?f = "\<lambda>k. (9/10::real) ^ k * gain (?r k)"
  let ?d = "\<lambda>k. (9/10::real) ^ k * (7 - gain (?r k))"
  have nn: "\<And>k. 0 \<le> ?d k"
    by (simp add: gain_grade(2) [OF rel_grade [OF assms]])
  have split: "sum ?d {0..<10} = (\<Sum>k = 0..<10. (9/10::real) ^ k) * 7 - sum ?f {0..<10}"
    by (simp add: sum_subtractf sum_distrib_right right_diff_distrib)
  have "expectedUtilityOutOf10 scores EU_ALPHA EVAL_DEPTH = 10
          \<longleftrightarrow> sum ?f {0..<10} = (\<Sum>k = 0..<10. (9/10::real) ^ k) * 7"
    using geo_pos by (simp add: eu_closed field_simps)
  also have "\<dots> \<longleftrightarrow> sum ?d {0..<10} = 0"
    using split by linarith
  also have "\<dots> \<longleftrightarrow> (\<forall>k \<in> {0..<10}. ?d k = 0)"
    by (rule sum_nonneg_eq_0_iff) (simp_all add: nn)
  also have "\<dots> \<longleftrightarrow> (\<forall>k < 10. gain (?r k) = 7)"
    by auto
  also have "\<dots> \<longleftrightarrow> (\<forall>k < 10. ?r k = 3)"
    using gain_grade(4) [OF rel_grade [OF assms]] by simp
  also have "\<dots> \<longleftrightarrow> (10 \<le> length scores \<and> (\<forall>k < 10. scores ! k = 3))"
  proof
    assume h: "\<forall>k < 10. ?r k = 3"
    have "9 < length scores"
    proof (rule ccontr)
      assume "\<not> 9 < length scores"
      with h [rule_format, of 9] show False by simp
    qed
    with h show "10 \<le> length scores \<and> (\<forall>k < 10. scores ! k = 3)"
      by (auto split: if_splits)
  next
    assume "10 \<le> length scores \<and> (\<forall>k < 10. scores ! k = 3)"
    then show "\<forall>k < 10. ?r k = 3" by auto
  qed
  finally show ?thesis .
qed

lemma eu_mono:
  assumes "i < length scores" and "scores ! i \<le> g"
  shows "expectedUtilityOutOf10 scores EU_ALPHA EVAL_DEPTH
           \<le> expectedUtilityOutOf10 (scores[i := g]) EU_ALPHA EVAL_DEPTH"
proof -
  have "(\<Sum>k = 0..<10. (9/10::real) ^ k * gain (if k < length scores then scores ! k else 0))
          \<le> (\<Sum>k = 0..<10. (9/10::real) ^ k *
                gain (if k < length (scores[i := g]) then scores[i := g] ! k else 0))"
    using assms by (intro sum_mono mult_left_mono) (auto simp: nth_list_update gain_mono)
  then show ?thesis
    using geo_pos by (simp add: eu_closed divide_right_mono)
qed

lemma gain_grade_pow: "r \<in> {0, 1, 2, 3} \<Longrightarrow> gain r = 2 ^ nat r - 1"
  by (auto simp: gain_def)

text \<open>
  Claim C1. For every grade sequence with elements in 0..3, the Expected Utility that
  \<open>expectedUtilityOutOf10\<close> computes with \<open>alpha = 0.9\<close> and \<open>L = 10\<close> is the weighted sum
  of the gains \<open>2^grade - 1\<close> over the positions 0..9, a position beyond the end of the
  sequence counting as grade 0, divided by the sum of the weights times \<open>gain(3) = 2^3 - 1\<close>,
  times 10.
\<close>

theorem C1_expected_utility_formula:
  assumes "set scores \<subseteq> {0, 1, 2, 3}"
  shows "expectedUtilityOutOf10 scores EU_ALPHA EVAL_DEPTH =
           (\<Sum>i = 0..<10. (9 / 10) ^ i * (2 ^ nat (if i < length scores then scores ! i else 0) - 1))
             / ((\<Sum>i = 0..<10. (9 / 10) ^ i) * (2 ^ 3 - 1)) * 10"
  unfolding eu_closed
  by (simp add: gain_grade_pow [OF rel_grade [OF assms]])

theorem C1_witness:
  "set [3, 2, 0] \<subseteq> {0, 1, 2, 3::int} \<and>
   expectedUtilityOutOf10 [3, 2, 0] EU_ALPHA EVAL_DEPTH = 97000000000 / 45592509193"
  using C1_expected_utility_formula [of "[3, 2, 0]"]
  by (simp add: eval_nat_numeral)

text \<open>
  Claim C2, as stated, fails: a sequence shorter than 10 whose grades are all 3 does not
  score 10, because the missing positions count as grade 0. The one-element sequence
  \<open>[3]\<close> scores about 1.535.
\<close>

theorem C2_counterexample:
  "length [3::int] \<le> 10 \<and> set [3::int] = {3} \<and>
   expectedUtilityOutOf10 [3] EU_ALPHA EVAL_DEPTH = 10000000000 / 6513215599 \<and>
   expectedUtilityOutOf10 [3] EU_ALPHA EVAL_DEPTH \<noteq> 10"
  by (simp add: eu_closed gain_values eval_nat_numeral)

text \<open>
  Claim C2, amended. For every grade sequence with elements in 0..3, the Expected Utility
  is exactly 10 if and only if the sequence has at least \<open>EVAL_DEPTH\<close> = 10 elements and
  each of its first 10 grades is 3. It never exceeds 10, so every other sequence, a
  shorter all-3 sequence included, scores strictly less than 10.
\<close>

theorem C2_perfect_score_iff:
  assumes "set scores \<subseteq> {0, 1, 2, 3}"
  shows "(expectedUtilityOutOf10 scores EU_ALPHA EVAL_DEPTH = 10 \<longleftrightarrow>
            (EVAL_DEPTH \<le> length scores \<and> (\<forall>k < EVAL_DEPTH. scores ! k = 3))) \<and>
         expectedUtilityOutOf10 scores EU_ALPHA EVAL_DEPTH \<le> 10"
  using eu_eq_10_iff [OF assms] eu_le_10 [OF assms] by (simp add: EVAL_DEPTH_def)

theorem C2_witness:
  "set (replicate 10 3) \<subseteq> {0, 1, 2, 3::int} \<and>
   expectedUtilityOutOf10 (replicate 10 3) EU_ALPHA EVAL_DEPTH = 10"
  using C2_perfect_score_iff [of "replicate 10 3"]
  by (simp add: EVAL_DEPTH_def)

text \<open>
  Claim C3. For every grade sequence with elements in 0..3, the Expected Utility lies
  between 0 and 10, and it is 0 if and only if every one of the positions 0..9 holds
  grade 0 or lies beyond the end of the sequence; the empty sequence scores 0.
\<close>

theorem C3_expected_utility_range:
  assumes "set scores \<subseteq> {0, 1, 2, 3}"
  shows "0 \<le> expectedUtilityOutOf10 scores EU_ALPHA EVAL_DEPTH \<and>
         expectedUtilityOutOf10 scores EU_ALPHA EVAL_DEPTH \<le> 10 \<and>
         (expectedUtilityOutOf10 scores EU_ALPHA EVAL_DEPTH = 0 \<longleftrightarrow>
            (\<forall>k < EVAL_DEPTH. k < length scores \<longrightarrow> scores ! k = 0)) \<and>
         expectedUtilityOutOf10 [] EU_ALPHA EVAL_DEPTH = 0"
  using eu_nonneg [OF assms] eu_le_10 [OF assms] eu_eq_0_iff [OF assms] eu_eq_0_iff [of "[]"]
  by (simp add: EVAL_DEPTH_def)

theorem C3_witness:
  "set (replicate 4 0) \<subseteq> {0, 1, 2, 3::int} \<and>
   expectedUtilityOutOf10 (replicate 4 0) EU_ALPHA EVAL_DEPTH = 0"
  using C3_expected_utility_range [of "replicate 4 0"]
  by simp

text \<open>
  Claim C4. The Expected Utility is monotone in each grade: replacing the grade at a
  position of the sequence by a strictly larger grade in 0..3, all other positions
  unchanged, does not lower it.
\<close>

theorem C4_expected_utility_monotone:
  assumes "set scores \<subseteq> {0, 1, 2, 3}" and "i < length scores"
    and "g \<in> {0, 1, 2, 3}" and "scores ! i < g"
  shows "expectedUtilityOutOf10 scores EU_ALPHA EVAL_DEPTH
           \<le> expectedUtilityOutOf10 (scores[i := g]) EU_ALPHA EVAL_DEPTH"
  using assms(2,4) by (intro eu_mono) simp_all

theorem C4_witness:
  "set [1, 2] \<subseteq> {0, 1, 2, 3::int} \<and> (0::nat) < length [1, 2::int] \<and> (3::int) \<in> {0, 1, 2, 3} \<and>
   [1, 2::int] ! 0 < 3 \<and>
   expectedUtilityOutOf10 [1, 2] EU_ALPHA EVAL_DEPTH \<le> expectedUtilityOutOf10 [3, 2] EU_ALPHA EVAL_DEPTH"
  using C4_expected_utility_monotone [of "[1, 2]" 0 3]
  by simp

section \<open>Properties of the score extractor\<close>

lemma matchHere_Chr_prev:
  "matchHere (Chr p # as) prev s cap = matchHere (Chr p # as) None s cap"
  by (cases s) simp_all

lemma matchHere_Grade_prev:
  "matchHere (Grade03 # as) prev s cap = matchHere (Grade03 # as) None s cap"
  by (cases s) simp_all

lemma matchHere_WsStar_prev:
  assumes "\<And>p s c. matchHere as p s c = matchHere as None s c"
  shows "matchHere (WsStar # as) prev s cap = matchHere (WsStar # as) None s cap"
  using assms [of prev] by (cases s) (simp_all split: option.splits)

lemma canonicalize_ws: "isWhiteSpace x \<Longrightarrow> canonicalize x = x"
  by (auto simp: isWhiteSpace_def canonicalize_def)

lemma matchHere_lits:
  assumes indep: "\<And>p s c. matchHere as p s c = matchHere as None s c"
  shows "matchHere (map Chr ps @ as) prev s cap = Some r \<longleftrightarrow>
           (\<exists>u rest. s = u @ rest \<and> sameIgnoringCase u ps \<and> matchHere as None rest cap = Some r)"
proof (induction ps arbitrary: s prev)
  case Nil
  show ?case using indep [of prev] by (simp add: sameIgnoringCase_def)
next
  case (Cons p ps)
  show ?case
  proof (cases s)
    case Nil
    then show ?thesis by (simp add: sameIgnoringCase_def)
  next
    case (Cons x xs)
    show ?thesis
    proof (cases "canonicalize x = canonicalize p")
      case True
      have "matchHere (map Chr (p # ps) @ as) prev s cap = Some r \<longleftrightarrow>
              (\<exists>u rest. xs = u @ rest \<and> sameIgnoringCase u ps \<and> matchHere as None rest cap = Some r)"
        using Cons True Cons.IH [of "Some x" xs] by simp
      also have "\<dots> \<longleftrightarrow> (\<exists>u rest. s = u @ rest \<and> sameIgnoringCase u (p # ps) \<and>
                                 matchHere as None rest cap = Some r)"
      proof
        assume "\<exists>u rest. xs = u @ rest \<and> sameIgnoringCase u ps \<and> matchHere as None rest cap = Some r"
        then obtain u rest where "xs = u @ rest" "sameIgnoringCase u ps"
          "matchHere as None rest cap = Some r" by blast
        then have "s = (x # u) @ rest \<and> sameIgnoringCase (x # u) (p # ps) \<and>
                   matchHere as None rest cap = Some r"
          using Cons True by (simp add: sameIgnoringCase_def)
        then show "\<exists>u rest. s = u @ rest \<and> sameIgnoringCase u (p # ps) \<and>
                     matchHere as None rest cap = Some r" by blast
      next
        assume "\<exists>u rest. s = u @ rest \<and> sameIgnoringCase u (p # ps) \<and>
                  matchHere as None rest cap = Some r"
        then obtain u rest where u: "s = u @ rest" "sameIgnoringCase u (p # ps)"
          "matchHere as None rest cap = Some r" by blast
        from u(2) obtain y u' where "u = y # u'" "sameIgnoringCase u' ps"
          by (cases u) (auto simp: sameIgnoringCase_def)
        with u Cons show "\<exists>u rest. xs = u @ rest \<and> sameIgnoringCase u ps \<and>
                            matchHere as None rest cap = Some r"
          by auto
      qed
      finally show ?thesis .
    next
      case False
      have "\<not> (\<exists>u rest. s = u @ rest \<and> sameIgnoringCase u (p # ps) \<and>
                  matchHere as None rest cap = Some r)"
      proof
        assume "\<exists>u rest. s = u @ rest \<and> sameIgnoringCase u (p # ps) \<and>
                  matchHere as None rest cap = Some r"
        then obtain u rest where u: "s = u @ rest" "sameIgnoringCase u (p # ps)" by blast
        from u(2) obtain y u' where "u = y # u'" "canonicalize y = canonicalize p"
          by (cases u) (auto simp: sameIgnoringCase_def)
        with u Cons False show False by simp
      qed
      then show ?thesis using Cons False by simp
    qed
  qed
qed

lemma matchHere_WsStar_dropWhile:
  assumes indep: "\<And>p s c. matchHere as p s c = matchHere as None s c"
    and rej: "\<And>x xs c. isWhiteSpace x \<Longrightarrow> matchHere as None (x # xs) c = None"
  shows "matchHere (WsStar # as) prev s cap = matchHere as None (dropWhile isWhiteSpace s) cap"
proof (induction s arbitrary: prev)
  case Nil
  show ?case using indep [of prev] by simp
next
  case (Cons x xs)
  show ?case
  proof (cases "isWhiteSpace x")
    case True
    have "matchHere as prev (x # xs) cap = None"
      using indep [of prev] rej [OF True] by simp
    then show ?thesis
      using True Cons.IH [of "Some x"] by (simp split: option.splits)
  next
    case False
    then show ?thesis using indep [of prev] by simp
  qed
qed

lemma matchHere_WsStar:
  assumes indep: "\<And>p s c. matchHere as p s c = matchHere as None s c"
    and rej: "\<And>x xs c. isWhiteSpace x \<Longrightarrow> matchHere as None (x # xs) c = None"
  shows "matchHere (WsStar # as) prev s cap = Some r \<longleftrightarrow>
           (\<exists>w rest. s = w @ rest \<and> list_all isWhiteSpace w \<and> matchHere as None rest cap = Some r)"
proof
  assume "matchHere (WsStar # as) prev s cap = Some r"
  then have "matchHere as None (dropWhile isWhiteSpace s) cap = Some r"
    by (simp add: matchHere_WsStar_dropWhile [OF indep rej])
  moreover have "s = takeWhile isWhiteSpace s @ dropWhile isWhiteSpace s" by simp
  moreover have "list_all isWhiteSpace (takeWhile isWhiteSpace s)"
    by (simp add: list_all_iff) (meson set_takeWhileD)
  ultimately show "\<exists>w rest. s = w @ rest \<and> list_all isWhiteSpace w \<and>
                     matchHere as None rest cap = Some r" by blast
next
  assume "\<exists>w rest. s = w @ rest \<and> list_all isWhiteSpace w \<and> matchHere as None rest cap = Some r"
  then obtain w rest where w: "s = w @ rest" "list_all isWhiteSpace w"
    "matchHere as None rest cap = Some r" by blast
  have "dropWhile isWhiteSpace rest = rest"
  proof (cases rest)
    case Nil then show ?thesis by simp
  next
    case (Cons x xs)
    with w(3) rej [of x xs cap] have "\<not> isWhiteSpace x" by auto
    with Cons show ?thesis by simp
  qed
  moreover have "dropWhile isWhiteSpace (w @ rest) = dropWhile isWhiteSpace rest"
    using w(2) by (simp add: dropWhile_append list_all_iff)
  ultimately show "matchHere (WsStar # as) prev s cap = Some r"
    using w by (simp add: matchHere_WsStar_dropWhile [OF indep rej])
qed

lemma matchHere_grade:
  "matchHere [Grade03, WordB] prev s cap = Some r \<longleftrightarrow>
     (\<exists>x rest. s = x # rest \<and> 48 \<le> x \<and> x \<le> 51 \<and> (rest = [] \<or> \<not> isWordChar (hd rest)) \<and> r = [x])"
proof (cases s)
  case Nil
  then show ?thesis by simp
next
  case (Cons x xs)
  have "48 \<le> x \<and> x \<le> 51 \<Longrightarrow> isWordChar x" by (simp add: isWordChar_def)
  then show ?thesis using Cons by (cases xs) auto
qed

lemma sameIgnoringCase_hashes: "sameIgnoringCase u (lit ''##'') \<longleftrightarrow> u = lit ''##''"
proof -
  have c: "\<And>x. canonicalize x = 35 \<longleftrightarrow> x = 35"
    by (auto simp: canonicalize_def)
  show ?thesis
    by (cases u; cases "tl u"; cases "tl (tl u)")
       (auto simp: sameIgnoringCase_def lit_def c canonicalize_def)
qed

lemma sameIgnoringCase_colon: "sameIgnoringCase u (lit '':'') \<longleftrightarrow> u = lit '':''"
proof -
  have c: "\<And>x. canonicalize x = 58 \<longleftrightarrow> x = 58"
    by (auto simp: canonicalize_def)
  show ?thesis
    by (cases u; cases "tl u") (auto simp: sameIgnoringCase_def lit_def c canonicalize_def)
qed

lemma rejects_ws_Chr:
  assumes "\<not> isWhiteSpace (canonicalize p)" and "isWhiteSpace x"
  shows "matchHere (Chr p # as) prev (x # xs) cap = None"
  using assms canonicalize_ws [of x] by auto

lemma rejects_ws_Grade:
  assumes "isWhiteSpace x"
  shows "matchHere (Grade03 # as) prev (x # xs) cap = None"
  using assms by (auto simp: isWhiteSpace_def)

lemma scoreRegex_tails: "scoreRegex = map Chr (lit ''##'') @ tailFinal"
  by (simp add: scoreRegex_def tailFinal_def tailScore_def tailColon_def tailGrade_def)

lemma tailGrade_iff:
  "matchHere tailGrade prev s cap = Some r \<longleftrightarrow>
     (\<exists>w x rest. s = w @ x # rest \<and> list_all isWhiteSpace w \<and> 48 \<le> x \<and> x \<le> 51 \<and>
        (rest = [] \<or> \<not> isWordChar (hd rest)) \<and> r = [x])"
proof -
  have "matchHere (WsStar # [Grade03, WordB]) prev s cap = Some r \<longleftrightarrow>
          (\<exists>w rest. s = w @ rest \<and> list_all isWhiteSpace w \<and>
             matchHere [Grade03, WordB] None rest cap = Some r)"
    by (rule matchHere_WsStar) (rule matchHere_Grade_prev, erule rejects_ws_Grade)
  then show ?thesis
    unfolding tailGrade_def matchHere_grade by blast
qed

lemma WsStar_Chr_prev:
  "matchHere (WsStar # Chr q # as) p s c = matchHere (WsStar # Chr q # as) None s c"
  by (rule matchHere_WsStar_prev) (rule matchHere_Chr_prev)

lemma WsStar_Grade_prev:
  "matchHere (WsStar # Grade03 # as) p s c = matchHere (WsStar # Grade03 # as) None s c"
  by (rule matchHere_WsStar_prev) (rule matchHere_Grade_prev)

lemma tailGrade_indep: "matchHere tailGrade p s c = matchHere tailGrade None s c"
  unfolding tailGrade_def by (rule WsStar_Grade_prev)

lemma tailColon_indep: "matchHere tailColon p s c = matchHere tailColon None s c"
  unfolding tailColon_def lit_def by simp (rule WsStar_Chr_prev)

lemma tailScore_indep: "matchHere tailScore p s c = matchHere tailScore None s c"
  unfolding tailScore_def lit_def by simp (rule WsStar_Chr_prev)

lemma tailFinal_indep: "matchHere tailFinal p s c = matchHere tailFinal None s c"
  unfolding tailFinal_def lit_def by simp (rule WsStar_Chr_prev)

lemma lit_rejects_ws:
  assumes "isWhiteSpace x"
  shows "matchHere (map Chr (lit '':'') @ as) None (x # xs) c = None"
    and "matchHere (map Chr (lit ''score'') @ as) None (x # xs) c = None"
    and "matchHere (map Chr (lit ''final'') @ as) None (x # xs) c = None"
  using assms canonicalize_ws [of x]
  by (auto simp: lit_def canonicalize_def isWhiteSpace_def)

lemma tailColon_iff:
  "matchHere tailColon prev s cap = Some r \<longleftrightarrow>
     (\<exists>w3 rest. s = w3 @ lit '':'' @ rest \<and> list_all isWhiteSpace w3 \<and>
        matchHere tailGrade None rest cap = Some r)"
proof -
  let ?as = "map Chr (lit '':'') @ tailGrade"
  have indep: "\<And>p s c. matchHere ?as p s c = matchHere ?as None s c"
    by (simp add: lit_def) (rule matchHere_Chr_prev)
  have "matchHere (WsStar # ?as) prev s cap = Some r \<longleftrightarrow>
          (\<exists>w rest. s = w @ rest \<and> list_all isWhiteSpace w \<and> matchHere ?as None rest cap = Some r)"
    by (rule matchHere_WsStar) (rule indep, erule lit_rejects_ws)
  then show ?thesis
    unfolding tailColon_def matchHere_lits [of tailGrade, OF tailGrade_indep] sameIgnoringCase_colon
    by blast
qed

lemma tailScore_iff:
  "matchHere tailScore prev s cap = Some r \<longleftrightarrow>
     (\<exists>w2 S rest. s = w2 @ S @ rest \<and> list_all isWhiteSpace w2 \<and>
        sameIgnoringCase S (lit ''score'') \<and> matchHere tailColon None rest cap = Some r)"
proof -
  let ?as = "map Chr (lit ''score'') @ tailColon"
  have indep: "\<And>p s c. matchHere ?as p s c = matchHere ?as None s c"
    by (simp add: lit_def) (rule matchHere_Chr_prev)
  have "matchHere (WsStar # ?as) prev s cap = Some r \<longleftrightarrow>
          (\<exists>w rest. s = w @ rest \<and> list_all isWhiteSpace w \<and> matchHere ?as None rest cap = Some r)"
    by (rule matchHere_WsStar) (rule indep, erule lit_rejects_ws)
  then show ?thesis
    unfolding tailScore_def matchHere_lits [of tailColon, OF tailColon_indep]
    by blast
qed

lemma tailFinal_iff:
  "matchHere tailFinal prev s cap = Some r \<longleftrightarrow>
     (\<exists>w1 F rest. s = w1 @ F @ rest \<and> list_all isWhiteSpace w1 \<and>
        sameIgnoringCase F (lit ''final'') \<and> matchHere tailScore None rest cap = Some r)"
proof -
  let ?as = "map Chr (lit ''final'') @ tailScore"
  have indep: "\<And>p s c. matchHere ?as p s c = matchHere ?as None s c"
    by (simp add: lit_def) (rule matchHere_Chr_prev)
  have "matchHere (WsStar # ?as) prev s cap = Some r \<longleftrightarrow>
          (\<exists>w rest. s = w @ rest \<and> list_all isWhiteSpace w \<and> matchHere ?as None rest cap = Some r)"
    by (rule matchHere_WsStar) (rule indep, erule lit_rejects_ws)
  then show ?thesis
    unfolding tailFinal_def matchHere_lits [of tailScore, OF tailScore_indep]
    by blast
qed

lemma scoreRegex_indep: "matchHere scoreRegex p s c = matchHere scoreRegex None s c"
  unfolding scoreRegex_tails lit_def by simp (rule matchHere_Chr_prev)

lemma scoreRegex_iff:
  "matchHere scoreRegex prev s cap = Some r \<longleftrightarrow>
     (\<exists>rest. s = lit ''##'' @ rest \<and> matchHere tailFinal None rest cap = Some r)"
  unfolding scoreRegex_tails matchHere_lits [of tailFinal, OF tailFinal_indep]
    sameIgnoringCase_hashes
  by blast

lemma matchHere_scoreRegex_marker:
  "matchHere scoreRegex prev s cap = Some r \<longleftrightarrow> (\<exists>g. markerHere s g \<and> r = [48 + g])"
proof
  assume "matchHere scoreRegex prev s cap = Some r"
  then obtain w1 F w2 S w3 w4 x rest where
    s: "s = lit ''##'' @ w1 @ F @ w2 @ S @ w3 @ lit '':'' @ w4 @ x # rest"
    and ws: "list_all isWhiteSpace w1" "list_all isWhiteSpace w2" "list_all isWhiteSpace w3"
      "list_all isWhiteSpace w4"
    and lits: "sameIgnoringCase F (lit ''final'')" "sameIgnoringCase S (lit ''score'')"
    and x: "48 \<le> x" "x \<le> 51" "rest = [] \<or> \<not> isWordChar (hd rest)" "r = [x]"
    unfolding scoreRegex_iff tailFinal_iff tailScore_iff tailColon_iff tailGrade_iff
    by auto
  from x have x': "48 + (x - 48) = x" "x - 48 \<le> 3" by auto
  have "markerHere s (x - 48)"
    unfolding markerHere_def
    apply (rule exI [of _ w1], rule exI [of _ F], rule exI [of _ w2], rule exI [of _ S])
    apply (rule exI [of _ w3], rule exI [of _ w4], rule exI [of _ rest])
    using s ws lits x x' by simp
  with x x' show "\<exists>g. markerHere s g \<and> r = [48 + g]"
    by (intro exI [of _ "x - 48"]) simp
next
  assume "\<exists>g. markerHere s g \<and> r = [48 + g]"
  then obtain g w1 F w2 S w3 w4 rest where
    s: "s = lit ''##'' @ w1 @ F @ w2 @ S @ w3 @ lit '':'' @ w4 @ [48 + g] @ rest"
    and ws: "list_all isWhiteSpace (w1 @ w2 @ w3 @ w4)"
    and lits: "sameIgnoringCase F (lit ''final'')" "sameIgnoringCase S (lit ''score'')"
    and g: "g \<le> 3" "rest = [] \<or> \<not> isWordChar (hd rest)" "r = [48 + g]"
    unfolding markerHere_def by blast
  have "matchHere tailGrade None (w4 @ [48 + g] @ rest) cap = Some r"
    unfolding tailGrade_iff using ws g by auto
  then have "matchHere tailColon None (w3 @ lit '':'' @ w4 @ [48 + g] @ rest) cap = Some r"
    unfolding tailColon_iff using ws by auto
  then have "matchHere tailScore None (w2 @ S @ w3 @ lit '':'' @ w4 @ [48 + g] @ rest) cap = Some r"
    unfolding tailScore_iff using ws lits by auto
  then have "matchHere tailFinal None (w1 @ F @ w2 @ S @ w3 @ lit '':'' @ w4 @ [48 + g] @ rest) cap
               = Some r"
    unfolding tailFinal_iff using ws lits by auto
  then show "matchHere scoreRegex prev s cap = Some r"
    unfolding scoreRegex_iff using s by auto
qed

lemma all_le_Suc_split: "(\<forall>k \<le> Suc n. P k) \<longleftrightarrow> P 0 \<and> (\<forall>k \<le> n. P (Suc k))"
proof safe
  fix k assume "P 0" "\<forall>k \<le> n. P (Suc k)" "k \<le> Suc n"
  then show "P k" by (cases k) auto
qed auto

lemma execFrom_None_iff:
  "execFrom scoreRegex prev s = None \<longleftrightarrow>
     (\<forall>k \<le> length s. matchHere scoreRegex None (drop k s) [] = None)"
proof (induction s arbitrary: prev)
  case Nil
  show ?case using scoreRegex_indep [of prev] by simp
next
  case (Cons x xs)
  have "(\<forall>k \<le> length (x # xs). matchHere scoreRegex None (drop k (x # xs)) [] = None) \<longleftrightarrow>
          matchHere scoreRegex None (x # xs) [] = None \<and>
          (\<forall>k \<le> length xs. matchHere scoreRegex None (drop k xs) [] = None)"
    by (simp add: all_le_Suc_split)
  then show ?case
    using Cons.IH [of "Some x"] scoreRegex_indep [of prev "x # xs" "[]"]
    by (simp split: option.splits)
qed

lemma execFrom_leftmost:
  assumes "k \<le> length s"
    and "matchHere scoreRegex None (drop k s) [] = Some r"
    and "\<forall>j < k. matchHere scoreRegex None (drop j s) [] = None"
  shows "execFrom scoreRegex prev s = Some r"
  using assms
proof (induction s arbitrary: prev k)
  case Nil
  then show ?case using scoreRegex_indep [of prev] by simp
next
  case (Cons x xs)
  show ?case
  proof (cases k)
    case 0
    with Cons.prems show ?thesis
      using scoreRegex_indep [of prev "x # xs" "[]"] by simp
  next
    case (Suc k')
    with Cons.prems have here: "matchHere scoreRegex None (x # xs) [] = None"
      by (auto dest: spec [of _ 0])
    have "execFrom scoreRegex (Some x) xs = Some r"
    proof (rule Cons.IH [of k'])
      show "k' \<le> length xs" using Cons.prems Suc by simp
      show "matchHere scoreRegex None (drop k' xs) [] = Some r" using Cons.prems Suc by simp
      show "\<forall>j < k'. matchHere scoreRegex None (drop j xs) [] = None"
      proof (intro allI impI)
        fix j assume "j < k'"
        then have "Suc j < k" using Suc by simp
        with Cons.prems(3) have "matchHere scoreRegex None (drop (Suc j) (x # xs)) [] = None"
          by blast
        then show "matchHere scoreRegex None (drop j xs) [] = None" by simp
      qed
    qed
    with here show ?thesis
      using scoreRegex_indep [of prev "x # xs" "[]"] by simp
  qed
qed

lemma execFrom_Some_marker:
  assumes "execFrom scoreRegex prev s = Some r"
  shows "\<exists>k g. markerAt s k g \<and> r = [48 + g]"
proof -
  from assms have "\<not> (\<forall>k \<le> length s. matchHere scoreRegex None (drop k s) [] = None)"
    using execFrom_None_iff [of prev s] by auto
  then obtain k r' where k: "k \<le> length s" "matchHere scoreRegex None (drop k s) [] = Some r'"
    by auto
  define k0 where "k0 = (LEAST k. k \<le> length s \<and> (\<exists>r'. matchHere scoreRegex None (drop k s) [] = Some r'))"
  have ex: "k0 \<le> length s \<and> (\<exists>r'. matchHere scoreRegex None (drop k0 s) [] = Some r')"
    unfolding k0_def by (rule LeastI [of _ k]) (use k in blast)
  then obtain r0 where r0: "matchHere scoreRegex None (drop k0 s) [] = Some r0" by blast
  have least: "\<forall>j < k0. matchHere scoreRegex None (drop j s) [] = None"
  proof (intro allI impI)
    fix j assume j: "j < k0"
    show "matchHere scoreRegex None (drop j s) [] = None"
    proof (rule ccontr)
      assume "matchHere scoreRegex None (drop j s) [] \<noteq> None"
      then have "j \<le> length s \<and> (\<exists>r'. matchHere scoreRegex None (drop j s) [] = Some r')"
        using j ex by auto
      then have "k0 \<le> j" unfolding k0_def by (rule Least_le)
      with j show False by simp
    qed
  qed
  have "execFrom scoreRegex prev s = Some r0"
    using ex r0 least by (intro execFrom_leftmost [of k0]) auto
  with assms have "r0 = r" by simp
  with r0 ex show ?thesis
    unfolding markerAt_def matchHere_scoreRegex_marker by blast
qed

lemma parseInt10_grade: "g \<le> 3 \<Longrightarrow> parseInt10 [48 + g] = Some (int g)"
  by (simp add: parseInt10_def isWhiteSpace_def isDigit_def Let_def)

lemma extractScore_leftmost:
  assumes "markerAt rawText k g" and "\<forall>j < k. \<forall>h. \<not> markerAt rawText j h"
  shows "extractScore rawText = int g"
proof -
  from assms(1) have k: "k \<le> length rawText" and m: "markerHere (drop k rawText) g"
    by (simp_all add: markerAt_def)
  from m have g: "g \<le> 3" by (auto simp: markerHere_def)
  from m have here: "matchHere scoreRegex None (drop k rawText) [] = Some [48 + g]"
    by (auto simp: matchHere_scoreRegex_marker)
  have "\<forall>j < k. matchHere scoreRegex None (drop j rawText) [] = None"
  proof (intro allI impI)
    fix j assume j: "j < k"
    show "matchHere scoreRegex None (drop j rawText) [] = None"
    proof (rule ccontr)
      assume "matchHere scoreRegex None (drop j rawText) [] \<noteq> None"
      then obtain r where "matchHere scoreRegex None (drop j rawText) [] = Some r" by auto
      then obtain h where "markerHere (drop j rawText) h"
        unfolding matchHere_scoreRegex_marker by blast
      then have "markerAt rawText j h" using j k by (simp add: markerAt_def)
      with assms(2) j show False by blast
    qed
  qed
  with k here have "execFrom scoreRegex None rawText = Some [48 + g]"
    by (intro execFrom_leftmost [of k]) auto
  then show ?thesis
    using g by (simp add: extractScore_def parseInt10_grade)
qed

lemma extractScore_no_marker:
  "extractScore rawText = - 1 \<longleftrightarrow> (\<forall>k g. \<not> markerAt rawText k g)"
proof
  assume e: "extractScore rawText = - 1"
  show "\<forall>k g. \<not> markerAt rawText k g"
  proof (intro allI notI)
    fix k g assume "markerAt rawText k g"
    then have "\<not> (\<forall>k \<le> length rawText. matchHere scoreRegex None (drop k rawText) [] = None)"
      using matchHere_scoreRegex_marker [of None "drop k rawText" "[]" "[48 + g]"]
      unfolding markerAt_def by auto
    then obtain r where r: "execFrom scoreRegex None rawText = Some r"
      using execFrom_None_iff [of None rawText] by auto
    then obtain k' g' where "markerAt rawText k' g'" "r = [48 + g']"
      using execFrom_Some_marker by blast
    moreover from this have "g' \<le> 3" by (auto simp: markerAt_def markerHere_def)
    ultimately show False
      using e r by (simp add: extractScore_def parseInt10_grade)
  qed
next
  assume none: "\<forall>k g. \<not> markerAt rawText k g"
  have "execFrom scoreRegex None rawText = None"
  proof (rule ccontr)
    assume "execFrom scoreRegex None rawText \<noteq> None"
    then obtain r where "execFrom scoreRegex None rawText = Some r" by auto
    from execFrom_Some_marker [OF this] none show False by blast
  qed
  then show "extractScore rawText = - 1" by (simp add: extractScore_def)
qed

lemma extractScore_range: "extractScore rawText \<in> {- 1, 0, 1, 2, 3}"
  by (auto simp: extractScore_def split: option.splits)

lemma extractScore_clean_prefix:
  assumes "35 \<notin> set pre" and "markerHere s g"
  shows "extractScore (pre @ s) = int g"
proof (rule extractScore_leftmost [of _ "length pre"])
  show "markerAt (pre @ s) (length pre) g"
    using assms(2) by (simp add: markerAt_def)
  show "\<forall>j < length pre. \<forall>h. \<not> markerAt (pre @ s) j h"
  proof (intro allI impI notI)
    fix j h assume j: "j < length pre" and "markerAt (pre @ s) j h"
    then have "markerHere (drop j pre @ s) h" by (simp add: markerAt_def)
    then have "hd (drop j pre @ s) = 35" by (auto simp: markerHere_def lit_def)
    with j have "pre ! j = 35" by (simp add: hd_append hd_drop_conv_nth)
    with j assms(1) show False by (metis nth_mem)
  qed
qed

lemma no_marker_in_clean_prefix:
  assumes "35 \<notin> set pre" and "j < length pre"
  shows "\<not> markerAt (pre @ s) j h"
proof
  assume "markerAt (pre @ s) j h"
  then have "markerHere (drop j pre @ s) h" using assms(2) by (simp add: markerAt_def)
  then have "hd (drop j pre @ s) = 35" by (auto simp: markerHere_def lit_def)
  with assms(2) have "pre ! j = 35" by (simp add: hd_append hd_drop_conv_nth)
  with assms show False by (metis nth_mem)
qed

lemma marker_example: "markerHere (lit ''## Final  SCORE :2.'') 2"
  unfolding markerHere_def
  apply (rule exI [of _ "lit '' ''"], rule exI [of _ "lit ''Final''"], rule exI [of _ "lit ''  ''"])
  apply (rule exI [of _ "lit ''SCORE''"], rule exI [of _ "lit '' ''"], rule exI [of _ "[]"])
  apply (rule exI [of _ "lit ''.''"])
  apply (simp add: lit_def sameIgnoringCase_def canonicalize_def isWhiteSpace_def isWordChar_def)
  done

lemmas extract_eval = scoreRegex_def lit_def isWhiteSpace_def isWordChar_def canonicalize_def
  extractScore_def parseInt10_def isDigit_def Let_def

text \<open>
  Claim C5, as stated, fails for some surrounding text. A word character right after the
  digit defeats the \<open>\b\<close> of the pattern, so \<open>##final score: 2x\<close> is a parse failure; and
  the first marker of the text wins, so a text that contains the marker for grade 2 after
  a marker for grade 1 yields 1.
\<close>

theorem C5_counterexample:
  "extractScore (lit ''##final score: 2x'') = - 1 \<and>
   extractScore (lit ''##final score: 1 ##final score: 2'') = 1"
  by (simp add: extract_eval)

text \<open>
  Claim C5, amended. \<open>extractScore\<close> returns the grade of the leftmost marker of the text:
  if a marker for grade \<open>g\<close> begins at index \<open>k\<close> and none begins before \<open>k\<close>, the result
  is \<open>g\<close>. It returns the parse failure \<open>-1\<close> exactly when the text holds no marker, and
  its result is always one of \<open>-1, 0, 1, 2, 3\<close>. A marker is \<open>##\<close>, \<open>final\<close>, \<open>score\<close>, a
  colon and one digit from 0 to 3, with optional white space between these parts, letters
  in either case, and no letter, digit or underscore right after the digit.
\<close>

theorem C5_extractScore_leftmost_marker:
  "(markerAt rawText k g \<and> (\<forall>j < k. \<forall>h. \<not> markerAt rawText j h) \<longrightarrow> extractScore rawText = int g) \<and>
   (extractScore rawText = - 1 \<longleftrightarrow> (\<forall>k g. \<not> markerAt rawText k g)) \<and>
   extractScore rawText \<in> {- 1, 0, 1, 2, 3}"
  using extractScore_leftmost [of rawText k g] extractScore_no_marker [of rawText]
    extractScore_range [of rawText]
  by blast

theorem C5_witness:
  "markerAt (lit ''Reasoning. ## Final  SCORE :2.'') 11 2 \<and>
   extractScore (lit ''Reasoning. ## Final  SCORE :2.'') = 2"
proof -
  have split: "lit ''Reasoning. ## Final  SCORE :2.'' = lit ''Reasoning. '' @ lit ''## Final  SCORE :2.''"
    by (simp add: lit_def)
  have at: "markerAt (lit ''Reasoning. ## Final  SCORE :2.'') 11 2"
    unfolding split markerAt_def using marker_example by (simp add: lit_def)
  have clean: "35 \<notin> set (lit ''Reasoning. '')" by (simp add: lit_def)
  have before: "\<forall>j < 11. \<forall>h. \<not> markerAt (lit ''Reasoning. ## Final  SCORE :2.'') j h"
    unfolding split using no_marker_in_clean_prefix [OF clean] by (simp add: lit_def)
  from at before show ?thesis
    using C5_extractScore_leftmost_marker [of "lit ''Reasoning. ## Final  SCORE :2.''" 11 2]
    by simp
qed

section \<open>Properties of the judge client and the dataset scorer\<close>

lemma truncate_str_take: "truncate_str s n = take n s"
  by (simp add: truncate_str_def)

lemma gradeOf_range: "gradeOf out \<in> {0, 1, 2, 3}"
  using extractScore_range [of "orElse t []" for t]
  by (cases out) (auto simp: gradeOf_def)

lemma startsWith_ERR_append: "startsWith (lit ''ERR:'' @ e) (lit ''ERR:'')"
  by (simp add: startsWith_def lit_def)

lemma scoreOne_outcome:
  assumes "callGenerateText rt \<lparr>model = modelName this, prompt = umbrelaPrompt query passage,
             temperature = 0\<rparr> st = (out, st1)"
  shows "scoreOne rt this query passage st =
           (\<lparr>judgedScore = gradeOf out, raw = rawOf out,
             judgedMs = performanceNow rt (world st1) - performanceNow rt (world st)\<rparr>, st1)"
  using assms by (cases out) (simp_all add: scoreOne_def gradeOf_def rawOf_def Let_def)

lemma scoreLoop_Cons:
  assumes "callGenerateText rt (judgeArgs this query r) st = (out, st1)"
  shows "scoreLoop rt this query (r # rest) i acc st =
           scoreLoop rt this query rest (Suc i)
             \<lparr>total = total acc + gradeOf out,
              counts = setCount (counts acc) (gradeOf out) (countOf (counts acc) (gradeOf out) + 1),
              errors = errors acc + (if startsWith (rawOf out) (lit ''ERR:'') then 1 else 0),
              durationMs = durationMs acc +
                (performanceNow rt (world st1) - performanceNow rt (world st)),
              perDoc = perDoc acc @ [\<lparr>index = i, score = gradeOf out\<rparr>]\<rparr> st1"
proof -
  have one: "scoreOne rt this query (truncate_str (formatPassage r) MAX_PASSAGE_CHARS) st =
           (\<lparr>judgedScore = gradeOf out, raw = rawOf out,
             judgedMs = performanceNow rt (world st1) - performanceNow rt (world st)\<rparr>, st1)"
    using assms by (intro scoreOne_outcome) (simp add: judgeArgs_def)
  have "\<not> (gradeOf out < 0 \<or> gradeOf out > 3)"
    using gradeOf_range [of out] by auto
  then show ?thesis
    by (simp add: one Let_def)
qed

lemma callGenerateText_log:
  assumes "callGenerateText rt args st = (out, st1)"
  shows "judgeLog st1 = judgeLog st @ [(args, out)]"
  using assms by (auto simp: callGenerateText_def split: prod.splits)

lemma scoreLoop_char:
  "\<exists>outs. length outs = length rs \<and>
     judgeLog (snd (scoreLoop rt this query rs i acc st)) =
       judgeLog st @ zip (map (judgeArgs this query) rs) outs \<and>
     perDoc (fst (scoreLoop rt this query rs i acc st)) =
       perDoc acc @ map (\<lambda>(k, out). \<lparr>index = k, score = gradeOf out\<rparr>) (zip [i..<i + length rs] outs) \<and>
     errors (fst (scoreLoop rt this query rs i acc st)) =
       errors acc + length (filter (\<lambda>out. startsWith (rawOf out) (lit ''ERR:'')) outs) \<and>
     total (fst (scoreLoop rt this query rs i acc st)) = total acc + sum_list (map gradeOf outs)"
proof (induction rs arbitrary: i acc st)
  case Nil
  show ?case by simp
next
  case (Cons r rest)
  obtain out st1 where call: "callGenerateText rt (judgeArgs this query r) st = (out, st1)"
    by (cases "callGenerateText rt (judgeArgs this query r) st")
  define acc1 where "acc1 =
    \<lparr>total = total acc + gradeOf out,
     counts = setCount (counts acc) (gradeOf out) (countOf (counts acc) (gradeOf out) + 1),
     errors = errors acc + (if startsWith (rawOf out) (lit ''ERR:'') then 1 else 0),
     durationMs = durationMs acc + (performanceNow rt (world st1) - performanceNow rt (world st)),
     perDoc = perDoc acc @ [\<lparr>index = i, score = gradeOf out\<rparr>]\<rparr>"
  have step: "scoreLoop rt this query (r # rest) i acc st = scoreLoop rt this query rest (Suc i) acc1 st1"
    unfolding acc1_def by (rule scoreLoop_Cons [OF call])
  from Cons.IH [of "Suc i" acc1 st1] obtain outs where
    len: "length outs = length rest"
    and log: "judgeLog (snd (scoreLoop rt this query rest (Suc i) acc1 st1)) =
       judgeLog st1 @ zip (map (judgeArgs this query) rest) outs"
    and docs: "perDoc (fst (scoreLoop rt this query rest (Suc i) acc1 st1)) =
       perDoc acc1 @ map (\<lambda>(k, out). \<lparr>index = k, score = gradeOf out\<rparr>)
         (zip [Suc i..<Suc i + length rest] outs)"
    and errs: "errors (fst (scoreLoop rt this query rest (Suc i) acc1 st1)) =
       errors acc1 + length (filter (\<lambda>out. startsWith (rawOf out) (lit ''ERR:'')) outs)"
    and tot: "total (fst (scoreLoop rt this query rest (Suc i) acc1 st1)) =
       total acc1 + sum_list (map gradeOf outs)"
    by blast
  have upt: "[i..<i + length (r # rest)] = i # [Suc i..<Suc i + length rest]"
    using upt_conv_Cons [of i "i + length (r # rest)"] by simp
  show ?case
  proof (intro exI [of _ "out # outs"] conjI)
    show "length (out # outs) = length (r # rest)" using len by simp
    show "judgeLog (snd (scoreLoop rt this query (r # rest) i acc st)) =
       judgeLog st @ zip (map (judgeArgs this query) (r # rest)) (out # outs)"
      unfolding step log using callGenerateText_log [OF call] by simp
    show "perDoc (fst (scoreLoop rt this query (r # rest) i acc st)) =
       perDoc acc @ map (\<lambda>(k, out). \<lparr>index = k, score = gradeOf out\<rparr>)
         (zip [i..<i + length (r # rest)] (out # outs))"
      unfolding step docs upt by (simp add: acc1_def)
    show "errors (fst (scoreLoop rt this query (r # rest) i acc st)) =
       errors acc + length (filter (\<lambda>out. startsWith (rawOf out) (lit ''ERR:'')) (out # outs))"
      unfolding step errs by (simp add: acc1_def)
    show "total (fst (scoreLoop rt this query (r # rest) i acc st)) =
       total acc + sum_list (map gradeOf (out # outs))"
      unfolding step tot by (simp add: acc1_def)
  qed
qed

lemma scoreDataset_char:
  "\<exists>outs. length outs = min (length results) EVAL_DEPTH \<and>
     judgeLog (snd (scoreDataset rt this query results st)) =
       judgeLog st @ zip (map (judgeArgs this query) (take EVAL_DEPTH results)) outs \<and>
     perDoc (fst (scoreDataset rt this query results st)) =
       map (\<lambda>(k, out). \<lparr>index = k, score = gradeOf out\<rparr>) (zip [0..<length outs] outs) \<and>
     errors (fst (scoreDataset rt this query results st)) =
       length (filter (\<lambda>out. startsWith (rawOf out) (lit ''ERR:'')) outs) \<and>
     total (fst (scoreDataset rt this query results st)) = sum_list (map gradeOf outs)"
proof -
  let ?init = "\<lparr>total = 0, counts = [(0, 0), (1, 0), (2, 0), (3, 0)], errors = 0,
            durationMs = 0, perDoc = []\<rparr>"
  from scoreLoop_char [of "take EVAL_DEPTH results" rt this query 0 ?init st]
  obtain outs where "length outs = length (take EVAL_DEPTH results)"
    and "judgeLog (snd (scoreLoop rt this query (take EVAL_DEPTH results) 0 ?init st)) =
       judgeLog st @ zip (map (judgeArgs this query) (take EVAL_DEPTH results)) outs"
    and "perDoc (fst (scoreLoop rt this query (take EVAL_DEPTH results) 0 ?init st)) =
       perDoc ?init @ map (\<lambda>(k, out). \<lparr>index = k, score = gradeOf out\<rparr>)
         (zip [0..<0 + length (take EVAL_DEPTH results)] outs)"
    and "errors (fst (scoreLoop rt this query (take EVAL_DEPTH results) 0 ?init st)) =
       errors ?init + length (filter (\<lambda>out. startsWith (rawOf out) (lit ''ERR:'')) outs)"
    and "total (fst (scoreLoop rt this query (take EVAL_DEPTH results) 0 ?init st)) =
       total ?init + sum_list (map gradeOf outs)"
    by blast
  then show ?thesis
    by (intro exI [of _ outs]) (simp add: scoreDataset_def Let_def min.commute)
qed

lemma scoreDataset_calls:
  assumes run: "scoreDataset rt this query results st = (d, st')"
    and calls: "calls = drop (length (judgeLog st)) (judgeLog st')"
  shows "\<exists>outs. length outs = min (length results) EVAL_DEPTH \<and>
     calls = zip (map (judgeArgs this query) (take EVAL_DEPTH results)) outs \<and>
     perDoc d = map (\<lambda>(k, out). \<lparr>index = k, score = gradeOf out\<rparr>) (zip [0..<length outs] outs) \<and>
     errors d = length (filter (\<lambda>out. startsWith (rawOf out) (lit ''ERR:'')) outs) \<and>
     total d = sum_list (map gradeOf outs)"
  using scoreDataset_char [of results rt this query st] unfolding run calls by auto

lemma errRaw_cases: "startsWith (rawOf out) (lit ''ERR:'') \<longleftrightarrow> threw out \<or> returnedSentinel out"
  by (cases out) (simp_all add: rawOf_def startsWith_ERR_append)

lemma not_both: "\<not> (threw out \<and> returnedSentinel out)"
  by (cases out) simp_all

lemma filter_split_count:
  "length (filter (\<lambda>out. startsWith (rawOf out) (lit ''ERR:'')) outs) =
     length (filter threw outs) + length (filter returnedSentinel outs)"
  by (induction outs) (use errRaw_cases not_both in auto)

lemma filter_snd_zip:
  "length as = length outs \<Longrightarrow> length (filter (\<lambda>c. P (snd c)) (zip as outs)) = length (filter P outs)"
  by (induction as outs rule: list_induct2) auto

lemma perDoc_nth:
  assumes "k < length outs"
  shows "map (\<lambda>(k, out). \<lparr>index = k, score = gradeOf out\<rparr>) (zip [0..<length outs] outs) ! k =
           \<lparr>index = k, score = gradeOf (outs ! k)\<rparr>"
  using assms by simp

lemma scripted_call:
  "callGenerateText (scriptedRuntime outs) args \<lparr>world = w, judgeLog = lg\<rparr> =
     ((if w < length outs then outs ! w else Returned None),
      \<lparr>world = Suc w, judgeLog = lg @ [(args, if w < length outs then outs ! w else Returned None)]\<rparr>)"
  by (simp add: callGenerateText_def scriptedRuntime_def)

lemma scripted_log:
  "w + length rs \<le> length outs \<Longrightarrow>
   map snd (judgeLog (snd (scoreLoop (scriptedRuntime outs) this q rs i acc
       \<lparr>world = w, judgeLog = lg\<rparr>))) = map snd lg @ take (length rs) (drop w outs)"
proof (induction rs arbitrary: w i acc lg)
  case Nil
  show ?case by simp
next
  case (Cons r rest)
  then have w: "w < length outs" by simp
  have call: "callGenerateText (scriptedRuntime outs) (judgeArgs this q r) \<lparr>world = w, judgeLog = lg\<rparr>
                = (outs ! w, \<lparr>world = Suc w, judgeLog = lg @ [(judgeArgs this q r, outs ! w)]\<rparr>)"
    using w by (simp add: scripted_call)
  have tk: "take (length (r # rest)) (drop w outs) = outs ! w # take (length rest) (drop (Suc w) outs)"
    using w by (simp add: Cons_nth_drop_Suc [symmetric])
  have rest: "Suc w + length rest \<le> length outs" using Cons.prems by simp
  show ?case
    unfolding scoreLoop_Cons [OF call] Cons.IH [OF rest] tk by simp
qed

lemma scripted_dataset_log:
  assumes "length rs \<le> length outs" and "length rs \<le> EVAL_DEPTH"
  shows "map snd (judgeLog (snd (scoreDataset (scriptedRuntime outs) this q rs startState)))
           = take (length rs) outs"
  using assms scripted_log [of 0 rs outs this q 0 _ "[]"]
  by (simp add: scoreDataset_def startState_def Let_def)


lemma gradeOf_parse_failure: "extractScore (orElse t []) = - 1 \<Longrightarrow> gradeOf (Returned t) = 0"
  by (simp add: gradeOf_def)

lemma scoreDataset_scores:
  "set (map score (perDoc (fst (scoreDataset rt this query results st)))) \<subseteq> {0, 1, 2, 3}"
proof -
  from scoreDataset_char [of results rt this query st] obtain outs where
    p: "perDoc (fst (scoreDataset rt this query results st)) =
          map (\<lambda>(k, out). \<lparr>index = k, score = gradeOf out\<rparr>) (zip [0..<length outs] outs)"
    by blast
  have "\<forall>x \<in> set (perDoc (fst (scoreDataset rt this query results st))). score x \<in> {0, 1, 2, 3}"
    unfolding p using gradeOf_range by fastforce
  then show ?thesis by auto
qed

lemma labels_range:
  assumes "set (map score ps) \<subseteq> {0, 1, 2, 3}"
  shows "set (take n (map score (sort_key index ps))) \<subseteq> {0, 1, 2, 3}"
proof -
  have "set (take n (map score (sort_key index ps))) \<subseteq> set (map score (sort_key index ps))"
    by (rule set_take_subset)
  also have "\<dots> = set (map score ps)" by simp
  finally show ?thesis using assms by blast
qed

lemma computed_scores_range:
  assumes "hasApiKey this"
  shows "0 \<le> evalScore (db1 (fst (evaluateSearchResults rt this query results1 results2 st))) \<and>
   evalScore (db1 (fst (evaluateSearchResults rt this query results1 results2 st))) \<le> 10 \<and>
   0 \<le> evalScore (db2 (fst (evaluateSearchResults rt this query results1 results2 st))) \<and>
   evalScore (db2 (fst (evaluateSearchResults rt this query results1 results2 st))) \<le> 10"
proof -
  obtain d1 st1 where r1: "scoreDataset rt this query (take EVAL_DEPTH results1) st = (d1, st1)"
    by (cases "scoreDataset rt this query (take EVAL_DEPTH results1) st")
  obtain d2 st2 where r2: "scoreDataset rt this query (take EVAL_DEPTH results2) st1 = (d2, st2)"
    by (cases "scoreDataset rt this query (take EVAL_DEPTH results2) st1")
  let ?s1 = "take EVAL_DEPTH (map score (sort_key index (perDoc d1)))"
  let ?s2 = "take EVAL_DEPTH (map score (sort_key index (perDoc d2)))"
  have g1: "set ?s1 \<subseteq> {0, 1, 2, 3}"
    using scoreDataset_scores [of rt this query "take EVAL_DEPTH results1" st] r1
    by (intro labels_range) simp
  have g2: "set ?s2 \<subseteq> {0, 1, 2, 3}"
    using scoreDataset_scores [of rt this query "take EVAL_DEPTH results2" st1] r2
    by (intro labels_range) simp
  have "evalScore (db1 (fst (evaluateSearchResults rt this query results1 results2 st))) =
          expectedUtilityOutOf10 ?s1 EU_ALPHA EVAL_DEPTH"
    and "evalScore (db2 (fst (evaluateSearchResults rt this query results1 results2 st))) =
          expectedUtilityOutOf10 ?s2 EU_ALPHA EVAL_DEPTH"
    using assms by (simp_all add: evaluateSearchResults_def r1 r2 Let_def computeMetrics_def)
  then show ?thesis
    using eu_nonneg [OF g1] eu_le_10 [OF g1] eu_nonneg [OF g2] eu_le_10 [OF g2] by simp
qed

lemma evalScore_fallback_or_range:
  "- 1 \<le> evalScore (db1 (fst (evaluateSearchResults rt this query results1 results2 st))) \<and>
   evalScore (db1 (fst (evaluateSearchResults rt this query results1 results2 st))) \<le> 10 \<and>
   - 1 \<le> evalScore (db2 (fst (evaluateSearchResults rt this query results1 results2 st))) \<and>
   evalScore (db2 (fst (evaluateSearchResults rt this query results1 results2 st))) \<le> 10"
proof (cases "hasApiKey this")
  case True
  from computed_scores_range [OF True, of rt query results1 results2 st] show ?thesis by simp
next
  case False
  then show ?thesis by (simp add: evaluateSearchResults_def fallback_def)
qed

lemmas run_eval = scoreDataset_def scoreOne_def callGenerateText_def scriptedRuntime_def
  startState_def keyedService_def Let_def startsWith_def lineHashesRegex_def countOf_def

text \<open>
  Claim C6. For every list of results, \<open>scoreDataset\<close> makes exactly
  \<open>min (length results) EVAL_DEPTH\<close> model calls, hence at most 10; the call number \<open>k\<close>
  is the one for the result at index \<open>k\<close>; \<open>perDoc\<close> has that same length and its entry
  \<open>k\<close> carries the index \<open>k\<close>.
\<close>

theorem C6_scoreDataset_cap:
  assumes "scoreDataset rt this query results st = (d, st')"
    and "calls = drop (length (judgeLog st)) (judgeLog st')"
  shows "length calls = min (length results) EVAL_DEPTH \<and>
         length calls \<le> 10 \<and>
         map fst calls = map (judgeArgs this query) (take EVAL_DEPTH results) \<and>
         length (perDoc d) = min (length results) EVAL_DEPTH \<and>
         map index (perDoc d) = [0..<min (length results) EVAL_DEPTH]"
proof -
  from scoreDataset_calls [OF assms] obtain outs where
    len: "length outs = min (length results) EVAL_DEPTH"
    and c: "calls = zip (map (judgeArgs this query) (take EVAL_DEPTH results)) outs"
    and p: "perDoc d = map (\<lambda>(k, out). \<lparr>index = k, score = gradeOf out\<rparr>) (zip [0..<length outs] outs)"
    by blast
  have "index \<circ> (\<lambda>(k, out). \<lparr>index = k, score = gradeOf out\<rparr>) = fst"
    by (auto simp: fun_eq_iff)
  then have idx: "map index (map (\<lambda>(k, out). \<lparr>index = k, score = gradeOf out\<rparr>)
                    (zip [0..<length outs] outs)) = [0..<length outs]"
    by simp
  show ?thesis
    using len unfolding c p idx
    by (simp add: EVAL_DEPTH_def min.commute)
qed

theorem C6_witness:
  "length (judgeLog (snd (scoreDataset (scriptedRuntime []) keyedService (lit ''q'')
      (map doc [''a'', ''b'', ''c'', ''d'', ''e'', ''f'', ''g'', ''h'', ''i'', ''j'', ''k'', ''l''])
      startState))) = 10"
  using C6_scoreDataset_cap [of "scriptedRuntime []" keyedService "lit ''q''"
      "map doc [''a'', ''b'', ''c'', ''d'', ''e'', ''f'', ''g'', ''h'', ''i'', ''j'', ''k'', ''l'']"
      startState _ _ _, OF surjective_pairing refl]
  by (simp add: startState_def EVAL_DEPTH_def)


section \<open>Properties of the orchestrator\<close>

text \<open>
  Claim C7. Without a judge credential \<open>evaluateSearchResults\<close> returns the fallback
  report (both scores exactly \<open>-1\<close>, both feedback strings empty, duration 0) and leaves
  the state as it was, so no model call is made. With a credential both scores lie in
  the interval from 0 to 10, so \<open>-1\<close> is never a computed score. The constructor sets
  \<open>hasApiKey\<close> exactly when the environment holds a non-empty key.
\<close>

theorem C7_fallback_sentinel:
  "(\<not> hasApiKey this \<longrightarrow>
      evaluateSearchResults rt this query results1 results2 st =
        (\<lparr>db1 = \<lparr>evalScore = - 1, feedback = []\<rparr>, db2 = \<lparr>evalScore = - 1, feedback = []\<rparr>,
          llmDuration = 0\<rparr>, st)) \<and>
   (hasApiKey this \<longrightarrow>
      0 \<le> evalScore (db1 (fst (evaluateSearchResults rt this query results1 results2 st))) \<and>
      evalScore (db1 (fst (evaluateSearchResults rt this query results1 results2 st))) \<le> 10 \<and>
      0 \<le> evalScore (db2 (fst (evaluateSearchResults rt this query results1 results2 st))) \<and>
      evalScore (db2 (fst (evaluateSearchResults rt this query results1 results2 st))) \<le> 10) \<and>
   hasApiKey (fst (newLLMService env)) = (orElse (env ''AI_GATEWAY_API_KEY'') [] \<noteq> [])"
  using computed_scores_range [of this rt query results1 results2 st]
  by (simp add: evaluateSearchResults_def fallback_def newLLMService_def Let_def)

theorem C7_witness:
  "\<not> hasApiKey (fst (newLLMService Map.empty)) \<and>
   evalScore (db1 (fst (evaluateSearchResults (scriptedRuntime []) (fst (newLLMService Map.empty))
      (lit ''q'') [doc ''a''] [doc ''b''] startState))) = - 1 \<and>
   judgeLog (snd (evaluateSearchResults (scriptedRuntime []) (fst (newLLMService Map.empty))
      (lit ''q'') [doc ''a''] [doc ''b''] startState)) = [] \<and>
   hasApiKey keyedService \<and>
   0 \<le> evalScore (db1 (fst (evaluateSearchResults (scriptedRuntime []) keyedService
      (lit ''q'') [doc ''a''] [doc ''b''] startState)))"
  using C7_fallback_sentinel [of "fst (newLLMService Map.empty)" "scriptedRuntime []" "lit ''q''"
      "[doc ''a'']" "[doc ''b'']" startState Map.empty]
    C7_fallback_sentinel [of keyedService "scriptedRuntime []" "lit ''q''"
      "[doc ''a'']" "[doc ''b'']" startState Map.empty]
  by (simp add: keyedService_def startState_def)


section \<open>Judge failures and the error tally\<close>









text \<open>
  Claim C9, as stated, fails for one kind of answer: a model call that returns normally
  with a text that itself begins with \<open>ERR:\<close> is tallied as an error, although no call
  failed and the text is merely unparsable.
\<close>

theorem C9_counterexample:
  "errors (fst (scoreDataset (scriptedRuntime [Returned (Some (lit ''ERR: no answer''))])
             keyedService (lit ''q'') [doc ''a''] startState)) = 1 \<and>
   extractScore (lit ''ERR: no answer'') = - 1"
  by (simp add: run_eval extract_eval EVAL_DEPTH_def)

text \<open>
  Claim C9, amended. The error tally of a dataset is the number of model calls that threw
  plus the number of model calls that returned a text beginning with \<open>ERR:\<close>; no other
  answer is tallied. An answer that does not parse to a grade is recorded as grade 0
  whether or not it is tallied.
\<close>

theorem C9_error_tally:
  assumes "scoreDataset rt this query results st = (d, st')"
    and "calls = drop (length (judgeLog st)) (judgeLog st')"
  shows "errors d = length (filter (\<lambda>c. threw (snd c)) calls) +
                    length (filter (\<lambda>c. returnedSentinel (snd c)) calls) \<and>
         (\<forall>k < length calls. \<forall>t. snd (calls ! k) = Returned t \<and> extractScore (orElse t []) = - 1
              \<longrightarrow> score (perDoc d ! k) = 0)"
proof -
  from scoreDataset_calls [OF assms(1,2)] obtain outs where
    len: "length outs = min (length results) EVAL_DEPTH"
    and c: "calls = zip (map (judgeArgs this query) (take EVAL_DEPTH results)) outs"
    and p: "perDoc d = map (\<lambda>(k, out). \<lparr>index = k, score = gradeOf out\<rparr>) (zip [0..<length outs] outs)"
    and e: "errors d = length (filter (\<lambda>out. startsWith (rawOf out) (lit ''ERR:'')) outs)"
    by blast
  have la: "length (map (judgeArgs this query) (take EVAL_DEPTH results)) = length outs"
    using len by (simp add: min.commute)
  have lc: "length calls = length outs" using la unfolding c by simp
  have tally: "errors d = length (filter (\<lambda>c. threw (snd c)) calls) +
                    length (filter (\<lambda>c. returnedSentinel (snd c)) calls)"
    unfolding e c filter_split_count filter_snd_zip [OF la] ..
  have "score (perDoc d ! k) = 0"
    if "k < length calls" and "snd (calls ! k) = Returned t" and "extractScore (orElse t []) = - 1"
    for k t
  proof -
    from that(1) lc have k: "k < length outs" by simp
    have "snd (calls ! k) = outs ! k" using k la unfolding c by simp
    with that have "gradeOf (outs ! k) = 0" by (simp add: gradeOf_parse_failure)
    then show ?thesis unfolding p using perDoc_nth [OF k] by simp
  qed
  with tally show ?thesis by blast
qed

lemma unparsable_run_log:
  "map snd (judgeLog (snd (scoreDataset (scriptedRuntime unparsableScript) keyedService (lit ''q'')
      (map doc [''a'', ''b'']) startState))) = unparsableScript"
  using scripted_dataset_log [of "map doc [''a'', ''b'']" unparsableScript keyedService "lit ''q''"]
  by (simp add: unparsableScript_def EVAL_DEPTH_def)

theorem C9_witness:
  "errors (fst (scoreDataset (scriptedRuntime unparsableScript) keyedService (lit ''q'')
      (map doc [''a'', ''b'']) startState)) = 1 \<and>
   score (perDoc (fst (scoreDataset (scriptedRuntime unparsableScript) keyedService (lit ''q'')
      (map doc [''a'', ''b'']) startState)) ! 0) = 0"
proof -
  let ?run = "scoreDataset (scriptedRuntime unparsableScript) keyedService (lit ''q'')
      (map doc [''a'', ''b'']) startState"
  let ?calls = "drop (length (judgeLog startState)) (judgeLog (snd ?run))"
  have calls: "map snd ?calls = unparsableScript"
    using unparsable_run_log by (simp add: startState_def)
  then have len: "length ?calls = 2"
    by (metis unparsableScript_def length_map length_Cons list.size(3) numeral_2_eq_2)
  have "snd (?calls ! 0) = map snd ?calls ! 0"
    using len by simp
  then have first: "snd (?calls ! 0) = Returned (Some (lit ''I cannot decide''))"
    unfolding calls by (simp add: unparsableScript_def)
  have fail: "extractScore (orElse (Some (lit ''I cannot decide'')) []) = - 1"
    by (simp add: extract_eval)
  have f1: "length (filter (\<lambda>c. threw (snd c)) ?calls) = length (filter threw (map snd ?calls))"
    by (simp add: filter_map comp_def)
  have f2: "length (filter (\<lambda>c. returnedSentinel (snd c)) ?calls) =
              length (filter returnedSentinel (map snd ?calls))"
    by (simp add: filter_map comp_def)
  have counts: "length (filter (\<lambda>c. threw (snd c)) ?calls) = 1"
    "length (filter (\<lambda>c. returnedSentinel (snd c)) ?calls) = 0"
    unfolding f1 f2 calls by (simp_all add: unparsableScript_def startsWith_def lit_def)
  from C9_error_tally [OF surjective_pairing refl, of "scriptedRuntime unparsableScript"
      keyedService "lit ''q''" "map doc [''a'', ''b'']" startState]
  show ?thesis
    using len first fail counts by auto
qed


section \<open>The passage sent to the judge\<close>

lemma dropWhile_keep:
  "\<not> P c \<Longrightarrow> dropWhile P (xs @ c # ys) = dropWhile P xs @ c # ys"
  by (induction xs) auto

lemma trim_take:
  assumes "\<not> isWhiteSpace a" and "\<not> isWhiteSpace c" and "m \<le> Suc (Suc (length P))"
  shows "take m (trim ((a # P) @ c # Q)) = take m ((a # P) @ [c])"
proof -
  have "trim ((a # P) @ c # Q) = rev (dropWhile isWhiteSpace (rev Q @ c # rev (a # P)))"
    using assms(1) by (simp add: trim_def)
  also have "\<dots> = rev (dropWhile isWhiteSpace (rev Q) @ c # rev (a # P))"
    using dropWhile_keep [of isWhiteSpace c "rev Q" "rev (a # P)", OF assms(2)] by simp
  also have "\<dots> = ((a # P) @ [c]) @ rev (dropWhile isWhiteSpace (rev Q))"
    by simp
  finally have t: "trim ((a # P) @ c # Q) = ((a # P) @ [c]) @ rev (dropWhile isWhiteSpace (rev Q))" .
  have "m - length ((a # P) @ [c]) = 0" using assms(3) by simp
  then show ?thesis
    unfolding t take_append [of m "(a # P) @ [c]"] by simp
qed

lemma passageHeader_length: "length (passageHeader r) \<le> 222"
  by (simp add: passageHeader_def truncate_str_take lit_def MAX_TITLE_CHARS_def)

lemma formatPassage_cut:
  assumes "MAX_PASSAGE_CHARS \<le> length (orElse (description r) [])"
  shows "truncate_str (formatPassage r) MAX_PASSAGE_CHARS =
           passageHeader r @
             take (MAX_PASSAGE_CHARS - length (passageHeader r)) (orElse (description r) [])"
proof -
  define d where "d = orElse (description r) []"
  define T where "T = truncate_str (orElse (title r) (lit ''Untitled'')) MAX_TITLE_CHARS"
  define u where "u = (if orElse (url r) [] \<noteq> [] then lit ''\<newline>URL: '' @ orElse (url r) [] else [])"
  define P where "P = lit ''itle: '' @ T @ lit ''\<newline> Description: '' @ take 4000 d @ lit ''\<newline> URL''"
  have d: "4000 \<le> length d" using assms by (simp add: d_def MAX_PASSAGE_CHARS_def)
  have hdr: "passageHeader r = 84 # lit ''itle: '' @ T @ lit ''\<newline> Description: ''"
    by (simp add: passageHeader_def T_def lit_def)
  have lh: "length (passageHeader r) \<le> 222" by (rule passageHeader_length)
  have fp: "formatPassage r = trim ((84 # P) @ 58 # (32 # u))"
    by (simp add: formatPassage_def Let_def P_def T_def u_def d_def truncate_str_take
        MAX_PASSAGE_CHARS_def lit_def)
  have lenP: "4000 \<le> Suc (Suc (length P))"
    using d by (simp add: P_def)
  have "take 4000 (formatPassage r) = take 4000 ((84 # P) @ [58])"
    unfolding fp using trim_take [of 84 58 4000 P "32 # u"] lenP
    by (simp add: isWhiteSpace_def)
  also have "(84 # P) @ [58] = passageHeader r @ (take 4000 d @ lit ''\<newline> URL:'')"
    by (simp add: hdr P_def lit_def)
  also have "take 4000 (passageHeader r @ (take 4000 d @ lit ''\<newline> URL:'')) =
               passageHeader r @ take (4000 - length (passageHeader r)) d"
    using lh d by (simp add: min_def)
  finally show ?thesis
    by (simp add: truncate_str_take MAX_PASSAGE_CHARS_def d_def)
qed

text \<open>
  Claim C10. The prompt of the model call for the item at index \<open>k\<close> is built from the
  formatted passage cut to its first \<open>MAX_PASSAGE_CHARS\<close> = 4000 characters, so the passage
  sent never exceeds 4000 characters. When the description alone has 4000 characters or
  more, the passage sent is the header followed by the first characters of the
  description: the URL is cut off entirely, and so is the end of the description.
\<close>

theorem C10_passage_bounded:
  assumes "scoreDataset rt this query results st = (d, st')"
    and "calls = drop (length (judgeLog st)) (judgeLog st')"
    and "k < length calls"
  shows "prompt (fst (calls ! k)) =
           umbrelaPrompt query (truncate_str (formatPassage (results ! k)) MAX_PASSAGE_CHARS) \<and>
         truncate_str (formatPassage (results ! k)) MAX_PASSAGE_CHARS =
           take MAX_PASSAGE_CHARS (formatPassage (results ! k)) \<and>
         length (truncate_str (formatPassage (results ! k)) MAX_PASSAGE_CHARS) \<le> 4000 \<and>
         (MAX_PASSAGE_CHARS \<le> length (orElse (description (results ! k)) []) \<longrightarrow>
            truncate_str (formatPassage (results ! k)) MAX_PASSAGE_CHARS =
              passageHeader (results ! k) @
                take (MAX_PASSAGE_CHARS - length (passageHeader (results ! k)))
                  (orElse (description (results ! k)) []))"
proof -
  from scoreDataset_calls [OF assms(1,2)] obtain outs where
    len: "length outs = min (length results) EVAL_DEPTH"
    and c: "calls = zip (map (judgeArgs this query) (take EVAL_DEPTH results)) outs"
    by blast
  have k: "k < length results" "k < EVAL_DEPTH" "k < length outs"
    using assms(3) len unfolding c by simp_all
  then have "fst (calls ! k) = judgeArgs this query (results ! k)"
    unfolding c by simp
  then have "prompt (fst (calls ! k)) =
           umbrelaPrompt query (truncate_str (formatPassage (results ! k)) MAX_PASSAGE_CHARS)"
    by (simp add: judgeArgs_def)
  then show ?thesis
    using formatPassage_cut [of "results ! k"]
    by (simp add: truncate_str_take MAX_PASSAGE_CHARS_def)
qed

theorem C10_witness:
  "truncate_str (formatPassage longDoc) MAX_PASSAGE_CHARS =
     lit ''Title: T\<newline> Description: '' @ replicate 3977 100 \<and>
   prompt (fst (judgeLog (snd (scoreDataset (scriptedRuntime []) keyedService (lit ''q'')
      [longDoc] startState)) ! 0)) =
     umbrelaPrompt (lit ''q'') (lit ''Title: T\<newline> Description: '' @ replicate 3977 100)"
proof -
  let ?run = "scoreDataset (scriptedRuntime []) keyedService (lit ''q'') [longDoc] startState"
  let ?calls = "drop (length (judgeLog startState)) (judgeLog (snd ?run))"
  from scoreDataset_calls [where rt = "scriptedRuntime []" and this = keyedService
      and query = "lit ''q''" and results = "[longDoc]" and st = startState,
      OF surjective_pairing refl]
  obtain outs where len: "length outs = min (length [longDoc]) EVAL_DEPTH"
    and c: "?calls = zip (map (judgeArgs keyedService (lit ''q'')) (take EVAL_DEPTH [longDoc])) outs"
    by blast
  have k: "0 < length ?calls"
    unfolding c using len by (simp add: EVAL_DEPTH_def)
  have hdr: "passageHeader longDoc = lit ''Title: T\<newline> Description: ''"
    by (simp add: passageHeader_def longDoc_def truncate_str_def lit_def MAX_TITLE_CHARS_def)
  have long: "MAX_PASSAGE_CHARS \<le> length (orElse (description longDoc) [])"
    by (simp add: longDoc_def MAX_PASSAGE_CHARS_def)
  have desc: "orElse (description longDoc) [] = replicate 4000 100"
    by (simp add: longDoc_def)
  have cut: "take (MAX_PASSAGE_CHARS - length (lit ''Title: T\<newline> Description: ''))
               (orElse (description longDoc) []) = replicate 3977 100"
    unfolding desc by (simp add: MAX_PASSAGE_CHARS_def lit_def)
  have nth: "[longDoc] ! 0 = longDoc" by simp
  note inst = C10_passage_bounded [OF surjective_pairing refl k, unfolded nth]
  from inst have p: "prompt (fst (?calls ! 0)) =
      umbrelaPrompt (lit ''q'') (truncate_str (formatPassage longDoc) MAX_PASSAGE_CHARS)"
    by blast
  from inst long have "truncate_str (formatPassage longDoc) MAX_PASSAGE_CHARS =
      passageHeader longDoc @
        take (MAX_PASSAGE_CHARS - length (passageHeader longDoc)) (orElse (description longDoc) [])"
    by blast
  then have t: "truncate_str (formatPassage longDoc) MAX_PASSAGE_CHARS =
      lit ''Title: T\<newline> Description: '' @ replicate 3977 100"
    unfolding hdr cut .
  have "?calls = judgeLog (snd ?run)" by (simp add: startState_def)
  with p t show ?thesis by simp
qed

end
